theory Spec2Isabelle
  imports Main
begin

section \<open>Common notions\<close>

text \<open>
  The C++ sources abort through \<open>assert\<close>; an index outside a container is undefined
  behaviour. Both are outcomes of the model: a function that can reach one of them
  returns \<open>error + 'a\<close>, with \<open>Inl\<close> for the failure.
\<close>

datatype error = AssertionFailed | OutOfRange

text \<open>
  A \<open>std::span\<close> into a storage array is the offset of its first element and its size.
  Sizes and counts are \<open>std::size_t\<close> in the source; every one of them is a minimum with,
  or a difference of, positions inside one array, so no operation wraps and they are
  modelled as \<open>nat\<close>.
\<close>

type_synonym span = "nat \<times> nat"

definition span_size :: "span \<Rightarrow> nat" where
  "span_size sp = snd sp"

definition span_empty :: "span \<Rightarrow> bool" where
  "span_empty sp = (snd sp = 0)"

text \<open>The elements of storage \<open>d\<close> that a span covers (reading through the span).\<close>

definition span_get :: "'a list \<Rightarrow> span \<Rightarrow> 'a list" where
  "span_get d sp = take (snd sp) (drop (fst sp) d)"

text \<open>\<open>std::ranges::copy(xs, d.begin() + off)\<close>: overwrite storage from offset \<open>off\<close>.\<close>

definition copy_to :: "'a list \<Rightarrow> nat \<Rightarrow> 'a list \<Rightarrow> 'a list" where
  "copy_to d off xs = take off d @ xs @ drop (off + length xs) d"

text \<open>\<open>ret.push_back(span)\<close> guarded by \<open>if (!span.empty())\<close>.\<close>

definition push_nonempty :: "span list \<Rightarrow> span \<Rightarrow> span list" where
  "push_nonempty ret sp = (if span_empty sp then ret else ret @ [sp])"


section \<open>circular\_buffer\<close>

text \<open>
  \<open>circular_buffer<Char, buffer_size>\<close> holds a \<open>std::array<Char, buffer_size + 1>\<close> and two
  iterators into it. The iterators are modelled by their offsets from \<open>data.begin()\<close>;
  \<open>data.end()\<close> is the offset \<open>length data\<close>.
\<close>

record 'a circular_buffer =
  cb_data :: "'a list"
  cb_read_pointer :: nat
  cb_write_pointer :: nat

definition cb_begin :: nat where
  "cb_begin = 0"

definition cb_end :: "'a circular_buffer \<Rightarrow> nat" where
  "cb_end b = length (cb_data b)"

text \<open>
  A default-constructed buffer: the array has \<open>buffer_size + 1\<close> slots whose initial
  contents are indeterminate (given here by \<open>junk\<close>), and both pointers are \<open>data.begin()\<close>.
\<close>

definition cb_new :: "nat \<Rightarrow> (nat \<Rightarrow> 'a) \<Rightarrow> 'a circular_buffer" where
  "cb_new buffer_size junk =
     \<lparr>cb_data = map junk [0..<buffer_size + 1], cb_read_pointer = cb_begin,
      cb_write_pointer = cb_begin\<rparr>"

definition cb_clear :: "'a circular_buffer \<Rightarrow> 'a circular_buffer" where
  "cb_clear b = b\<lparr>cb_read_pointer := cb_begin, cb_write_pointer := cb_begin\<rparr>"

definition cb_writable_ranges :: "'a circular_buffer \<Rightarrow> span list" where
  "cb_writable_ranges b =
     (let rp = cb_read_pointer b;
          twp0 = cb_write_pointer b;
          (ret1, twp1) =
            (if rp \<le> twp0 then
               let wend = (if rp = cb_begin then cb_end b - 1 else cb_end b);
                   sp = (twp0, wend - twp0);
                   ret = push_nonempty [] sp;
                   twp = twp0 + span_size sp;
                   twp' = (if twp = cb_end b \<and> rp \<noteq> cb_begin then cb_begin else twp)
               in (ret, twp')
             else ([], twp0))
      in if rp > twp1 then push_nonempty ret1 (twp1, (rp - 1) - twp1) else ret1)"

definition cb_commit :: "'a circular_buffer \<Rightarrow> nat \<Rightarrow> error + ('a circular_buffer \<times> nat)" where
  "cb_commit b n =
     (let rp = cb_read_pointer b;
          (b1, bytes_left1, bytes_written1) =
            (if rp \<le> cb_write_pointer b then
               let wend = (if rp = cb_begin then cb_end b - 1 else cb_end b);
                   can_write = min (wend - cb_write_pointer b) n;
                   wp = cb_write_pointer b + can_write;
                   wp' = (if wp = cb_end b \<and> rp \<noteq> cb_begin then cb_begin else wp)
               in (b\<lparr>cb_write_pointer := wp'\<rparr>, n - can_write, can_write)
             else (b, n, 0))
      in if rp > cb_write_pointer b1 then
           let can_write = min (rp - cb_begin - 1) bytes_left1;
               b2 = b1\<lparr>cb_write_pointer := cb_write_pointer b1 + can_write\<rparr>
           in if cb_write_pointer b2 < rp then Inr (b2, bytes_written1 + can_write)
              else Inl AssertionFailed
         else Inr (b1, bytes_written1))"

text \<open>
  The loop of \<open>write\<close> over the writable ranges: \<open>d\<close> is the storage, \<open>data_left\<close> the part
  of the source not yet copied.
\<close>

fun cb_write_loop :: "span list \<Rightarrow> 'a list \<Rightarrow> 'a list \<Rightarrow> nat \<Rightarrow> 'a list \<times> nat" where
  "cb_write_loop [] d data_left bytes_written = (d, bytes_written)"
| "cb_write_loop (rng # ranges) d data_left bytes_written =
     (let can_write = min (length data_left) (span_size rng);
          d' = copy_to d (fst rng) (take can_write data_left);
          data_left' = drop can_write data_left;
          bytes_written' = bytes_written + can_write
      in if data_left' = [] then (d', bytes_written')
         else cb_write_loop ranges d' data_left' bytes_written')"

definition cb_write :: "'a circular_buffer \<Rightarrow> 'a list \<Rightarrow> error + ('a circular_buffer \<times> nat)" where
  "cb_write b buf =
     (let (d, bytes_written) = cb_write_loop (cb_writable_ranges b) (cb_data b) buf 0
      in case cb_commit (b\<lparr>cb_data := d\<rparr>) bytes_written of
           Inl e \<Rightarrow> Inl e
         | Inr (b', _) \<Rightarrow> Inr (b', bytes_written))"

definition cb_readable_ranges :: "'a circular_buffer \<Rightarrow> error + span list" where
  "cb_readable_ranges b =
     (if cb_read_pointer b = cb_write_pointer b then Inr []
      else
        let wp = cb_write_pointer b;
            trp0 = cb_read_pointer b;
            (ret1, trp1) =
              (if trp0 > wp then
                 let can_read = cb_end b - trp0;
                     ret = push_nonempty [] (trp0, can_read);
                     trp = trp0 + can_read;
                     trp' = (if trp = cb_end b then cb_begin else trp)
                 in (ret, trp')
               else ([], trp0));
            (ret2, trp2) =
              (if trp1 < wp then
                 let can_read = wp - trp1
                 in (push_nonempty ret1 (trp1, can_read), trp1 + can_read)
               else (ret1, trp1))
        in if trp2 < cb_end b then Inr ret2 else Inl AssertionFailed)"

definition cb_discard :: "'a circular_buffer \<Rightarrow> nat \<Rightarrow> error + ('a circular_buffer \<times> nat)" where
  "cb_discard b n =
     (if cb_read_pointer b = cb_write_pointer b then Inr (b, 0)
      else
        let wp = cb_write_pointer b;
            (b1, bytes_left1, bytes_read1) =
              (if cb_read_pointer b > wp then
                 let can_read = min n (cb_end b - cb_read_pointer b);
                     rp = cb_read_pointer b + can_read;
                     rp' = (if rp = cb_end b then cb_begin else rp)
                 in (b\<lparr>cb_read_pointer := rp'\<rparr>, n - can_read, can_read)
               else (b, n, 0));
            (b2, bytes_read2) =
              (if cb_read_pointer b1 < wp then
                 let can_read = min bytes_left1 (wp - cb_read_pointer b1)
                 in (b1\<lparr>cb_read_pointer := cb_read_pointer b1 + can_read\<rparr>,
                     bytes_read1 + can_read)
               else (b1, bytes_read1))
        in if cb_read_pointer b2 < cb_end b then Inr (b2, bytes_read2)
           else Inl AssertionFailed)"

text \<open>
  The loop of \<open>read\<close> over the readable ranges: \<open>out\<close> is the part of the destination
  already filled, \<open>data_left\<close> the part still to fill.
\<close>

fun cb_read_loop :: "span list \<Rightarrow> 'a list \<Rightarrow> 'a list \<Rightarrow> 'a list \<Rightarrow> nat \<Rightarrow> 'a list \<times> nat" where
  "cb_read_loop [] d out data_left bytes_read = (out @ data_left, bytes_read)"
| "cb_read_loop (rng # ranges) d out data_left bytes_read =
     (let can_read = min (length data_left) (span_size rng);
          out' = out @ span_get d (fst rng, can_read);
          data_left' = drop can_read data_left;
          bytes_read' = bytes_read + can_read
      in if data_left' = [] then (out', bytes_read')
         else cb_read_loop ranges d out' data_left' bytes_read')"

text \<open>\<open>read\<close> returns the buffer, the destination as it is afterwards, and the count.\<close>

definition cb_read ::
  "'a circular_buffer \<Rightarrow> 'a list \<Rightarrow> error + ('a circular_buffer \<times> 'a list \<times> nat)" where
  "cb_read b buf =
     (case cb_readable_ranges b of
        Inl e \<Rightarrow> Inl e
      | Inr ranges \<Rightarrow>
          let (buf', bytes_read) = cb_read_loop ranges (cb_data b) [] buf 0
          in (case cb_discard b bytes_read of
                Inl e \<Rightarrow> Inl e
              | Inr (b', _) \<Rightarrow> Inr (b', buf', bytes_read)))"


subsection \<open>What the buffer holds\<close>

text \<open>
  The unread units, oldest first: from the read pointer up to the write pointer, going
  round the end of the storage when the write pointer has wrapped.
\<close>

definition cb_contents :: "'a circular_buffer \<Rightarrow> 'a list" where
  "cb_contents b =
     (if cb_read_pointer b \<le> cb_write_pointer b
      then take (cb_write_pointer b - cb_read_pointer b) (drop (cb_read_pointer b) (cb_data b))
      else drop (cb_read_pointer b) (cb_data b) @ take (cb_write_pointer b) (cb_data b))"

definition cb_size :: "'a circular_buffer \<Rightarrow> nat" where
  "cb_size b =
     (if cb_read_pointer b \<le> cb_write_pointer b
      then cb_write_pointer b - cb_read_pointer b
      else cb_end b - cb_read_pointer b + cb_write_pointer b)"

text \<open>The free space: the storage less the slot kept empty, less the unread units.\<close>

definition cb_free :: "'a circular_buffer \<Rightarrow> nat" where
  "cb_free b = cb_end b - 1 - cb_size b"

definition total_size :: "span list \<Rightarrow> nat" where
  "total_size ranges = sum_list (map span_size ranges)"

text \<open>The elements of storage \<open>d\<close> that a sequence of spans covers, in order.\<close>

definition ranges_get :: "'a list \<Rightarrow> span list \<Rightarrow> 'a list" where
  "ranges_get d ranges = concat (map (span_get d) ranges)"

text \<open>Both pointers designate a slot of the array (neither is \<open>data.end()\<close>).\<close>

definition cb_wf :: "'a circular_buffer \<Rightarrow> bool" where
  "cb_wf b = (cb_read_pointer b < cb_end b \<and> cb_write_pointer b < cb_end b)"

subsection \<open>Sequences of operations\<close>

datatype 'a cb_op =
    CbWrite "'a list"
  | CbCommit nat
  | CbRead "'a list"
  | CbDiscard nat
  | CbClear
  | CbWritableRanges
  | CbReadableRanges

fun cb_step :: "'a circular_buffer \<Rightarrow> 'a cb_op \<Rightarrow> error + 'a circular_buffer" where
  "cb_step b (CbWrite xs) = (case cb_write b xs of Inl e \<Rightarrow> Inl e | Inr (b', _) \<Rightarrow> Inr b')"
| "cb_step b (CbCommit n) = (case cb_commit b n of Inl e \<Rightarrow> Inl e | Inr (b', _) \<Rightarrow> Inr b')"
| "cb_step b (CbRead buf) = (case cb_read b buf of Inl e \<Rightarrow> Inl e | Inr (b', _, _) \<Rightarrow> Inr b')"
| "cb_step b (CbDiscard n) = (case cb_discard b n of Inl e \<Rightarrow> Inl e | Inr (b', _) \<Rightarrow> Inr b')"
| "cb_step b CbClear = Inr (cb_clear b)"
| "cb_step b CbWritableRanges = Inr b"
| "cb_step b CbReadableRanges = (case cb_readable_ranges b of Inl e \<Rightarrow> Inl e | Inr _ \<Rightarrow> Inr b)"

text \<open>Run a sequence of operations; an abort ends the run.\<close>

fun cb_run :: "'a circular_buffer \<Rightarrow> 'a cb_op list \<Rightarrow> error + 'a circular_buffer" where
  "cb_run b [] = Inr b"
| "cb_run b (x # xs) = (case cb_step b x of Inl e \<Rightarrow> Inl e | Inr b' \<Rightarrow> cb_run b' xs)"


section \<open>fixed\_buffer\<close>

text \<open>
  Modelled from the spec: \<open>fixed_buffer<Char, extent_size>\<close> (\<open>sk/buffer/fixed_buffer.hxx\<close>),
  the extent type of \<open>dynamic_buffer\<close>, is not among the sources. The spec describes it as
  a single contiguous region with independent read and write cursors and no wraparound,
  with the same read/write/commit/discard contract as the other buffers. Its storage has
  \<open>extent_size\<close> slots; \<open>read_window\<close> is the span from the read cursor to the write
  cursor, \<open>write_window\<close> the span from the write cursor to the end of the storage. A new
  extent has an empty read window and the whole storage as its write window; \<open>z\<close> stands
  for the indeterminate initial contents of the storage.
\<close>

record 'a fixed_buffer =
  fb_data :: "'a list"
  fb_read_pos :: nat
  fb_write_pos :: nat

text \<open>Modelled from the spec: the constructor of the missing \<open>fixed_buffer\<close>; a new extent
  has nothing to read and its whole storage to write.\<close>

definition fb_new :: "nat \<Rightarrow> 'a \<Rightarrow> 'a fixed_buffer" where
  "fb_new extent_size z = \<lparr>fb_data = replicate extent_size z, fb_read_pos = 0, fb_write_pos = 0\<rparr>"

text \<open>Modelled from the spec: the member \<open>read_window\<close> of the missing \<open>fixed_buffer\<close>, the
  span of the units written and not yet read.\<close>

definition read_window :: "'a fixed_buffer \<Rightarrow> span" where
  "read_window e = (fb_read_pos e, fb_write_pos e - fb_read_pos e)"

text \<open>Modelled from the spec: the member \<open>write_window\<close> of the missing \<open>fixed_buffer\<close>,
  the span from the write cursor to the end of the storage.\<close>

definition write_window :: "'a fixed_buffer \<Rightarrow> span" where
  "write_window e = (fb_write_pos e, length (fb_data e) - fb_write_pos e)"

text \<open>Modelled from the spec: \<open>fixed_buffer::write\<close> (missing) copies as much of the source as
  the write window takes and returns the count.\<close>

definition fb_write :: "'a fixed_buffer \<Rightarrow> 'a list \<Rightarrow> 'a fixed_buffer \<times> nat" where
  "fb_write e buf =
     (let n = min (length buf) (span_size (write_window e))
      in (e\<lparr>fb_data := copy_to (fb_data e) (fb_write_pos e) (take n buf),
             fb_write_pos := fb_write_pos e + n\<rparr>, n))"

text \<open>Modelled from the spec: \<open>fixed_buffer::commit\<close> (missing) marks up to \<open>n\<close> units of the
  write window as written and returns the count.\<close>

definition fb_commit :: "'a fixed_buffer \<Rightarrow> nat \<Rightarrow> 'a fixed_buffer \<times> nat" where
  "fb_commit e n =
     (let m = min n (span_size (write_window e))
      in (e\<lparr>fb_write_pos := fb_write_pos e + m\<rparr>, m))"

text \<open>Modelled from the spec: \<open>fixed_buffer::discard\<close> (missing) removes up to \<open>n\<close> units from
  the front of the read window and returns the count.\<close>

definition fb_discard :: "'a fixed_buffer \<Rightarrow> nat \<Rightarrow> 'a fixed_buffer \<times> nat" where
  "fb_discard e n =
     (let m = min n (span_size (read_window e))
      in (e\<lparr>fb_read_pos := fb_read_pos e + m\<rparr>, m))"

text \<open>Modelled from the spec: \<open>fixed_buffer::read\<close> (missing) copies as many unread units as
  the destination takes, removes them, and returns the units copied and their count.\<close>

definition fb_read :: "'a fixed_buffer \<Rightarrow> 'a list \<Rightarrow> 'a fixed_buffer \<times> 'a list \<times> nat" where
  "fb_read e buf =
     (let n = min (length buf) (span_size (read_window e))
      in (e\<lparr>fb_read_pos := fb_read_pos e + n\<rparr>, span_get (fb_data e) (fb_read_pos e, n), n))"

text \<open>The unread units of one extent.\<close>

definition fb_contents :: "'a fixed_buffer \<Rightarrow> 'a list" where
  "fb_contents e = span_get (fb_data e) (read_window e)"


section \<open>dynamic\_buffer\<close>

text \<open>
  \<open>dynamic_buffer<Char, extent_bytes>\<close> is a \<open>std::deque\<close> of extents and the index
  \<open>write_pointer\<close> of the first extent that can be written to. The static member
  \<open>extent_size\<close> is a parameter of the model, as is the filler \<open>z\<close> of a new extent.
  The loops of \<open>write\<close>, \<open>read\<close> and \<open>discard\<close> are \<open>for (;;)\<close> loops: they are
  partial functions into \<open>option\<close>, where \<open>None\<close> stands for a loop that does not return.
\<close>

record 'a dynamic_buffer =
  db_extents :: "'a fixed_buffer list"
  db_write_pointer :: nat

definition db_new :: "'a dynamic_buffer" where
  "db_new = \<lparr>db_extents = [], db_write_pointer = 0\<rparr>"

definition minfree :: "nat \<Rightarrow> nat" where
  "minfree extent_size = extent_size div 2"

definition emplace_back :: "nat \<Rightarrow> 'a \<Rightarrow> 'a dynamic_buffer \<Rightarrow> 'a dynamic_buffer" where
  "emplace_back extent_size z s = s\<lparr>db_extents := db_extents s @ [fb_new extent_size z]\<rparr>"

definition db_ensure_minfree :: "nat \<Rightarrow> 'a \<Rightarrow> 'a dynamic_buffer \<Rightarrow> error + 'a dynamic_buffer" where
  "db_ensure_minfree extent_size z s =
     (if db_extents s = [] \<or>
         span_size (write_window (last (db_extents s))) < minfree extent_size
      then
        let s1 = emplace_back extent_size z s
        in if db_write_pointer s1 < length (db_extents s1) then
             (if span_size (write_window (db_extents s1 ! db_write_pointer s1)) = 0
              then Inr (s1\<lparr>db_write_pointer := db_write_pointer s1 + 1\<rparr>)
              else Inr s1)
           else Inl OutOfRange
      else Inr s)"

definition db_remove_front :: "'a dynamic_buffer \<Rightarrow> error + 'a dynamic_buffer" where
  "db_remove_front s =
     (if db_extents s = [] then Inl AssertionFailed
      else if \<not> (db_write_pointer s > 0 \<or> span_size (write_window (hd (db_extents s))) = 0)
      then Inl AssertionFailed
      else Inr (s\<lparr>db_write_pointer :=
                    (if db_write_pointer s > 0 then db_write_pointer s - 1
                     else db_write_pointer s),
                  db_extents := tl (db_extents s)\<rparr>))"

function db_commit_loop ::
  "nat \<Rightarrow> 'a \<Rightarrow> 'a dynamic_buffer \<Rightarrow> nat \<Rightarrow> nat \<Rightarrow> error + ('a dynamic_buffer \<times> nat)" where
  "db_commit_loop extent_size z s left n =
     (if \<not> db_write_pointer s < length (db_extents s) then Inl AssertionFailed
      else
        let (e', m) = fb_commit (db_extents s ! db_write_pointer s) left;
            s1 = s\<lparr>db_extents := (db_extents s)[db_write_pointer s := e']\<rparr>
        in if \<not> m > 0 then Inl AssertionFailed
           else
             let left' = left - m
             in if left' = 0 then
                  (case db_ensure_minfree extent_size z s1 of
                     Inl e \<Rightarrow> Inl e
                   | Inr s2 \<Rightarrow> Inr (s2, n))
                else db_commit_loop extent_size z
                       (s1\<lparr>db_write_pointer := db_write_pointer s1 + 1\<rparr>) left' n)"
  by pat_completeness auto
termination
  by (relation "measure (\<lambda>(extent_size, z, s, left, n).
        length (db_extents s) - db_write_pointer s)") auto

declare db_commit_loop.simps [simp del]

partial_function (option) db_write_loop ::
  "nat \<Rightarrow> 'a \<Rightarrow> 'a dynamic_buffer \<Rightarrow> 'a list \<Rightarrow> nat \<Rightarrow> (error + ('a dynamic_buffer \<times> nat)) option" where
  "db_write_loop extent_size z s buf size_data =
     (let s1 = (if db_write_pointer s = length (db_extents s)
                then emplace_back extent_size z s else s)
      in if \<not> db_write_pointer s1 < length (db_extents s1) then Some (Inl OutOfRange)
         else
           let (e', n) = fb_write (db_extents s1 ! db_write_pointer s1) buf;
               s2 = s1\<lparr>db_extents := (db_extents s1)[db_write_pointer s1 := e']\<rparr>;
               buf' = drop n buf
           in if buf' = [] then
                (case db_ensure_minfree extent_size z s2 of
                   Inl e \<Rightarrow> Some (Inl e)
                 | Inr s3 \<Rightarrow> Some (Inr (s3, size_data)))
              else db_write_loop extent_size z
                     (s2\<lparr>db_write_pointer := db_write_pointer s2 + 1\<rparr>) buf' size_data)"

declare db_write_loop.simps [code]

partial_function (option) db_discard_loop ::
  "'a dynamic_buffer \<Rightarrow> nat \<Rightarrow> nat \<Rightarrow> nat \<Rightarrow> (error + ('a dynamic_buffer \<times> nat)) option" where
  "db_discard_loop s n nleft discards =
     (if db_extents s = [] then Some (Inr (s, discards))
      else if span_size (read_window (hd (db_extents s))) = 0 then Some (Inr (s, discards))
      else
        let (front, m) = fb_discard (hd (db_extents s)) nleft;
            nleft' = nleft - m;
            discards' = discards + m;
            s1 = s\<lparr>db_extents := front # tl (db_extents s)\<rparr>
        in case (if span_size (read_window front) = 0 \<and> span_size (write_window front) = 0
                 then db_remove_front s1 else Inr s1) of
             Inl e \<Rightarrow> Some (Inl e)
           | Inr s2 \<Rightarrow>
               if discards' = n then Some (Inr (s2, discards'))
               else db_discard_loop s2 n nleft' discards')"

declare db_discard_loop.simps [code]

partial_function (option) db_read_loop ::
  "'a dynamic_buffer \<Rightarrow> nat \<Rightarrow> 'a list \<Rightarrow> 'a list \<Rightarrow> nat \<Rightarrow>
   (error + ('a dynamic_buffer \<times> 'a list \<times> nat)) option" where
  "db_read_loop s size_data out buf bytes_read =
     (if db_extents s = [] then Some (Inr (s, out @ buf, bytes_read))
      else if span_size (read_window (hd (db_extents s))) = 0
      then Some (Inr (s, out @ buf, bytes_read))
      else
        let (front, copied, n) = fb_read (hd (db_extents s)) buf;
            buf' = drop n buf;
            out' = out @ copied;
            bytes_read' = bytes_read + n;
            s1 = s\<lparr>db_extents := front # tl (db_extents s)\<rparr>
        in case (if span_size (read_window front) = 0 \<and> span_size (write_window front) = 0
                 then db_remove_front s1 else Inr s1) of
             Inl e \<Rightarrow> Some (Inl e)
           | Inr s2 \<Rightarrow>
               if bytes_read' = size_data then Some (Inr (s2, out' @ buf', bytes_read'))
               else db_read_loop s2 size_data out' buf' bytes_read')"

declare db_read_loop.simps [code]

text \<open>The loop of \<open>writable_ranges\<close> over the extents \<open>write_pointer, ..., size - 1\<close>.\<close>

fun db_writable_loop ::
  "nat \<Rightarrow> 'a fixed_buffer list \<Rightarrow> nat \<Rightarrow> nat list \<Rightarrow> error + (nat \<times> span) list" where
  "db_writable_loop extent_size exts wp [] = Inr []"
| "db_writable_loop extent_size exts wp (i # idxs) =
     (if \<not> span_size (write_window (exts ! i)) > 0 then Inl AssertionFailed
      else if \<not> (i = wp \<or> span_size (write_window (exts ! i)) = extent_size)
      then Inl AssertionFailed
      else (case db_writable_loop extent_size exts wp idxs of
              Inl e \<Rightarrow> Inl e
            | Inr ret \<Rightarrow> Inr ((i, write_window (exts ! i)) # ret)))"

text \<open>A range of the dynamic buffer is the index of its extent and the span inside it.\<close>

definition db_writable_ranges ::
  "nat \<Rightarrow> 'a \<Rightarrow> 'a dynamic_buffer \<Rightarrow> error + ('a dynamic_buffer \<times> (nat \<times> span) list)" where
  "db_writable_ranges extent_size z s =
     (case db_ensure_minfree extent_size z s of
        Inl e \<Rightarrow> Inl e
      | Inr s1 \<Rightarrow>
          if \<not> db_write_pointer s1 < length (db_extents s1) then Inl AssertionFailed
          else (case db_writable_loop extent_size (db_extents s1) (db_write_pointer s1)
                       [db_write_pointer s1 ..< length (db_extents s1)] of
                  Inl e \<Rightarrow> Inl e
                | Inr ret \<Rightarrow> Inr (s1, ret)))"

definition db_commit ::
  "nat \<Rightarrow> 'a \<Rightarrow> 'a dynamic_buffer \<Rightarrow> nat \<Rightarrow> error + ('a dynamic_buffer \<times> nat)" where
  "db_commit extent_size z s n =
     (if n = 0 then Inr (s, 0)
      else if \<not> db_write_pointer s < length (db_extents s) then Inl AssertionFailed
      else db_commit_loop extent_size z s n n)"

definition db_write ::
  "nat \<Rightarrow> 'a \<Rightarrow> 'a dynamic_buffer \<Rightarrow> 'a list \<Rightarrow> (error + ('a dynamic_buffer \<times> nat)) option" where
  "db_write extent_size z s data =
     (if length data = 0 then Some (Inr (s, 0))
      else if \<not> db_write_pointer s \<le> length (db_extents s) then Some (Inl AssertionFailed)
      else db_write_loop extent_size z s data (length data))"

definition db_readable_ranges :: "'a dynamic_buffer \<Rightarrow> (nat \<times> span) list" where
  "db_readable_ranges s =
     map (\<lambda>(i, ext). (i, read_window ext))
       (filter (\<lambda>(i, ext). span_size (read_window ext) \<noteq> 0)
          (zip [0 ..< length (db_extents s)] (db_extents s)))"

definition db_discard ::
  "'a dynamic_buffer \<Rightarrow> nat \<Rightarrow> (error + ('a dynamic_buffer \<times> nat)) option" where
  "db_discard s n = db_discard_loop s n n 0"

text \<open>\<open>read\<close> returns the buffer, the destination as it is afterwards, and the count.\<close>

definition db_read ::
  "'a dynamic_buffer \<Rightarrow> 'a list \<Rightarrow> (error + ('a dynamic_buffer \<times> 'a list \<times> nat)) option" where
  "db_read s data =
     (if length data = 0 then Some (Inr (s, data, 0))
      else db_read_loop s (length data) [] data 0)"

subsection \<open>What the buffer holds\<close>

definition db_contents :: "'a dynamic_buffer \<Rightarrow> 'a list" where
  "db_contents s = concat (map fb_contents (db_extents s))"

definition db_size :: "'a dynamic_buffer \<Rightarrow> nat" where
  "db_size s = sum_list (map (\<lambda>e. span_size (read_window e)) (db_extents s))"

subsection \<open>The state between operations\<close>

text \<open>
  An extent is well formed when its storage has \<open>extent_size\<close> slots and its cursors
  are in order. Inside the loops of \<open>write\<close> and \<open>commit\<close> the write pointer may
  stand one past the last extent; every extent before it is full, every extent after it
  is untouched, only the first extent has been read from, and the first extent is not
  dead (it still has unread units or room). Between operations the write pointer
  moreover designates an extent, unless there is none.
\<close>

definition fb_wf :: "nat \<Rightarrow> 'a fixed_buffer \<Rightarrow> bool" where
  "fb_wf extent_size e =
     (length (fb_data e) = extent_size \<and> fb_read_pos e \<le> fb_write_pos e \<and>
      fb_write_pos e \<le> extent_size)"

definition db_linv :: "nat \<Rightarrow> 'a dynamic_buffer \<Rightarrow> bool" where
  "db_linv extent_size s =
     (0 < extent_size \<and> db_write_pointer s \<le> length (db_extents s) \<and>
      (\<forall>e \<in> set (db_extents s). fb_wf extent_size e) \<and>
      (\<forall>e \<in> set (take (db_write_pointer s) (db_extents s)). fb_write_pos e = extent_size) \<and>
      (\<forall>e \<in> set (drop (Suc (db_write_pointer s)) (db_extents s)). fb_write_pos e = 0) \<and>
      (\<forall>e \<in> set (tl (db_extents s)). fb_read_pos e = 0) \<and>
      (db_extents s \<noteq> [] \<longrightarrow> fb_read_pos (hd (db_extents s)) < extent_size))"

definition db_inv :: "nat \<Rightarrow> 'a dynamic_buffer \<Rightarrow> bool" where
  "db_inv extent_size s =
     (db_linv extent_size s \<and>
      (db_extents s = [] \<or> db_write_pointer s < length (db_extents s)))"

subsection \<open>Sequences of operations\<close>

datatype 'a db_op =
    DbWrite "'a list"
  | DbCommit nat
  | DbRead "'a list"
  | DbDiscard nat
  | DbWritableRanges
  | DbReadableRanges
  | DbEnsureMinfree

fun db_step ::
  "nat \<Rightarrow> 'a \<Rightarrow> 'a dynamic_buffer \<Rightarrow> 'a db_op \<Rightarrow> (error + 'a dynamic_buffer) option" where
  "db_step extent_size z s (DbWrite xs) =
     (case db_write extent_size z s xs of
        None \<Rightarrow> None | Some (Inl e) \<Rightarrow> Some (Inl e) | Some (Inr (s', _)) \<Rightarrow> Some (Inr s'))"
| "db_step extent_size z s (DbCommit n) =
     (case db_commit extent_size z s n of Inl e \<Rightarrow> Some (Inl e) | Inr (s', _) \<Rightarrow> Some (Inr s'))"
| "db_step extent_size z s (DbRead buf) =
     (case db_read s buf of
        None \<Rightarrow> None | Some (Inl e) \<Rightarrow> Some (Inl e) | Some (Inr (s', _, _)) \<Rightarrow> Some (Inr s'))"
| "db_step extent_size z s (DbDiscard n) =
     (case db_discard s n of
        None \<Rightarrow> None | Some (Inl e) \<Rightarrow> Some (Inl e) | Some (Inr (s', _)) \<Rightarrow> Some (Inr s'))"
| "db_step extent_size z s DbWritableRanges =
     (case db_writable_ranges extent_size z s of
        Inl e \<Rightarrow> Some (Inl e) | Inr (s', _) \<Rightarrow> Some (Inr s'))"
| "db_step extent_size z s DbReadableRanges = Some (Inr s)"
| "db_step extent_size z s DbEnsureMinfree = Some (db_ensure_minfree extent_size z s)"

text \<open>Run a sequence of operations; an abort, or a loop that does not return, ends the run.\<close>

fun db_run ::
  "nat \<Rightarrow> 'a \<Rightarrow> 'a dynamic_buffer \<Rightarrow> 'a db_op list \<Rightarrow> (error + 'a dynamic_buffer) option" where
  "db_run extent_size z s [] = Some (Inr s)"
| "db_run extent_size z s (x # xs) =
     (case db_step extent_size z s x of
        None \<Rightarrow> None
      | Some (Inl e) \<Rightarrow> Some (Inl e)
      | Some (Inr s') \<Rightarrow> db_run extent_size z s' xs)"


section \<open>Properties of circular\_buffer\<close>

text \<open>
  A well-formed buffer has one of three layouts: the read pointer at the start of the
  storage (\<open>front\<close>), the read pointer past the start and not after the write pointer
  (\<open>middle\<close>), or the write pointer wrapped to before the read pointer (\<open>wrapped\<close>).
  Each operation is computed on each layout, with the storage split into the segments
  the pointers delimit.
\<close>

lemma split_last_slot:
  assumes "xs \<noteq> []"
  obtains F s where "xs = F @ [s]" "length F = length xs - 1"
  using assms by (metis append_butlast_last_id length_butlast)

lemma cb_cases [consumes 1, case_names front middle wrapped]:
  assumes "cb_wf b"
  obtains (front) U F s where
      "b = \<lparr>cb_data = U @ F @ [s], cb_read_pointer = 0, cb_write_pointer = length U\<rparr>"
  | (middle) G s U T where
      "b = \<lparr>cb_data = G @ s # U @ T, cb_read_pointer = Suc (length G),
            cb_write_pointer = Suc (length G + length U)\<rparr>" "T \<noteq> []"
  | (wrapped) H F s R where
      "b = \<lparr>cb_data = H @ F @ s # R, cb_read_pointer = Suc (length H + length F),
            cb_write_pointer = length H\<rparr>" "R \<noteq> []"
proof -
  obtain d r w where b: "b = \<lparr>cb_data = d, cb_read_pointer = r, cb_write_pointer = w\<rparr>"
    by (cases b) simp
  from assms b have r: "r < length d" and w: "w < length d"
    by (simp_all add: cb_wf_def cb_end_def)
  consider "r = 0" | "0 < r" "r \<le> w" | "w < r" by linarith
  then show thesis
  proof cases
    case 1
    from w have "drop w d \<noteq> []" by simp
    then obtain F s where fs: "drop w d = F @ [s]"
      by (rule split_last_slot)
    have "d = take w d @ F @ [s]"
      using fs append_take_drop_id [of w d] by simp
    moreover have "length (take w d) = w" using w by simp
    ultimately show ?thesis using front [of "take w d" F s] b 1 by simp
  next
    case 2
    from 2 r have "take r d \<noteq> []" by auto
    then obtain G s where gs: "take r d = G @ [s]" and lg: "length G = length (take r d) - 1"
      by (rule split_last_slot)
    define U where "U = take (w - r) (drop r d)"
    define T where "T = drop (w - r) (drop r d)"
    have "drop r d = U @ T"
      unfolding U_def T_def by (rule append_take_drop_id [symmetric])
    with gs have d: "d = G @ s # U @ T"
      using append_take_drop_id [of r d] by simp
    have "length G = r - 1" using lg r by simp
    then have rr: "r = Suc (length G)" using 2 by simp
    have "length U = w - r" using w by (simp add: U_def)
    then have ww: "w = Suc (length G + length U)" using rr 2 by simp
    have "T \<noteq> []" using w 2 by (simp add: T_def)
    then show ?thesis using middle [of G s U T] b d rr ww by simp
  next
    case 3
    define H where "H = take w d"
    from 3 r have "take (r - w) (drop w d) \<noteq> []" by simp
    then obtain F s where fs: "take (r - w) (drop w d) = F @ [s]"
      and lf: "length F = length (take (r - w) (drop w d)) - 1"
      by (rule split_last_slot)
    define R where "R = drop (r - w) (drop w d)"
    have "drop w d = take (r - w) (drop w d) @ R"
      unfolding R_def by (rule append_take_drop_id [symmetric])
    with fs have "drop w d = F @ [s] @ R" by simp
    then have d: "d = H @ F @ s # R"
      using append_take_drop_id [of w d] by (simp add: H_def)
    have lh: "length H = w" using w by (simp add: H_def)
    have "length F = r - w - 1" using lf r 3 by simp
    then have rr: "r = Suc (length H + length F)" using lh 3 by simp
    have "R \<noteq> []" using r 3 by (simp add: R_def)
    then show ?thesis using wrapped [of H F s R] b d rr lh by simp
  qed
qed


lemmas cb_simps = cb_writable_ranges_def cb_commit_def cb_begin_def cb_end_def Let_def
  push_nonempty_def span_empty_def span_size_def copy_to_def span_get_def

lemma write_front:
  "cb_write \<lparr>cb_data = U @ F @ [s], cb_read_pointer = 0, cb_write_pointer = length U\<rparr> xs =
   Inr (\<lparr>cb_data = U @ take (length F) xs @ drop (length xs) F @ [s], cb_read_pointer = 0,
         cb_write_pointer = length U + min (length xs) (length F)\<rparr>, min (length xs) (length F))"
  by (cases "F = []") (simp_all add: cb_write_def cb_simps)

lemma write_wrapped:
  "R \<noteq> [] \<Longrightarrow> cb_write \<lparr>cb_data = H @ F @ s # R, cb_read_pointer = Suc (length H + length F),
            cb_write_pointer = length H\<rparr> xs =
   Inr (\<lparr>cb_data = H @ take (length F) xs @ drop (length xs) F @ s # R,
         cb_read_pointer = Suc (length H + length F),
         cb_write_pointer = length H + min (length xs) (length F)\<rparr>, min (length xs) (length F))"
  by (cases "F = []") (simp_all add: cb_write_def cb_simps)


lemma write_middle_less:
  "length xs < length T \<Longrightarrow>
   cb_write \<lparr>cb_data = G @ s # U @ T, cb_read_pointer = Suc (length G),
            cb_write_pointer = Suc (length G + length U)\<rparr> xs =
   Inr (\<lparr>cb_data = G @ s # U @ xs @ drop (length xs) T, cb_read_pointer = Suc (length G),
         cb_write_pointer = Suc (length G + length U + length xs)\<rparr>, length xs)"
  by (auto simp add: cb_write_def cb_simps)

lemma write_middle_more:
  "length T \<le> length xs \<Longrightarrow> T \<noteq> [] \<Longrightarrow>
   cb_write \<lparr>cb_data = G @ s # U @ T, cb_read_pointer = Suc (length G),
            cb_write_pointer = Suc (length G + length U)\<rparr> xs =
   Inr (\<lparr>cb_data = take (length G) (drop (length T) xs) @ drop (length xs - length T) G
                   @ s # U @ take (length T) xs,
         cb_read_pointer = Suc (length G),
         cb_write_pointer = min (length xs - length T) (length G)\<rparr>,
        length T + min (length xs - length T) (length G))"
  by (cases "G = []") (auto simp add: cb_write_def cb_simps)


subsection \<open>commit on each layout\<close>

lemma commit_front:
  "cb_commit \<lparr>cb_data = U @ F @ [s], cb_read_pointer = 0, cb_write_pointer = length U\<rparr> n =
   Inr (\<lparr>cb_data = U @ F @ [s], cb_read_pointer = 0,
         cb_write_pointer = length U + min (length F) n\<rparr>, min (length F) n)"
  by (simp add: cb_simps)

lemma commit_middle_less:
  "n < length T \<Longrightarrow>
   cb_commit \<lparr>cb_data = G @ s # U @ T, cb_read_pointer = Suc (length G),
            cb_write_pointer = Suc (length G + length U)\<rparr> n =
   Inr (\<lparr>cb_data = G @ s # U @ T, cb_read_pointer = Suc (length G),
         cb_write_pointer = Suc (length G + length U + n)\<rparr>, n)"
  by (auto simp add: cb_simps)

lemma commit_middle_more:
  "length T \<le> n \<Longrightarrow> T \<noteq> [] \<Longrightarrow>
   cb_commit \<lparr>cb_data = G @ s # U @ T, cb_read_pointer = Suc (length G),
            cb_write_pointer = Suc (length G + length U)\<rparr> n =
   Inr (\<lparr>cb_data = G @ s # U @ T, cb_read_pointer = Suc (length G),
         cb_write_pointer = min (length G) (n - length T)\<rparr>,
        length T + min (length G) (n - length T))"
  by (auto simp add: cb_simps)

lemma commit_wrapped:
  "n \<le> length F \<Longrightarrow>
   cb_commit \<lparr>cb_data = H @ F @ s # R, cb_read_pointer = Suc (length H + length F),
            cb_write_pointer = length H\<rparr> n =
   Inr (\<lparr>cb_data = H @ F @ s # R, cb_read_pointer = Suc (length H + length F),
         cb_write_pointer = length H + n\<rparr>, n)"
  by (auto simp add: cb_simps)

lemma commit_wrapped_any:
  "cb_commit \<lparr>cb_data = H @ F @ s # R, cb_read_pointer = Suc (length H + length F),
            cb_write_pointer = length H\<rparr> n = Inr (b', m) \<Longrightarrow>
   cb_data b' = H @ F @ s # R \<and> cb_read_pointer b' = Suc (length H + length F) \<and>
   cb_write_pointer b' < Suc (length H + length F)"
  by (auto simp add: cb_simps split: if_splits)

subsection \<open>discard on each layout\<close>

lemma discard_front:
  "cb_discard \<lparr>cb_data = U @ F @ [s], cb_read_pointer = 0, cb_write_pointer = length U\<rparr> n =
   Inr (\<lparr>cb_data = U @ F @ [s], cb_read_pointer = min n (length U),
         cb_write_pointer = length U\<rparr>, min n (length U))"
  by (auto simp add: cb_discard_def cb_simps)

lemma discard_middle:
  "T \<noteq> [] \<Longrightarrow> cb_discard \<lparr>cb_data = G @ s # U @ T, cb_read_pointer = Suc (length G),
            cb_write_pointer = Suc (length G + length U)\<rparr> n =
   Inr (\<lparr>cb_data = G @ s # U @ T, cb_read_pointer = Suc (length G + min n (length U)),
         cb_write_pointer = Suc (length G + length U)\<rparr>, min n (length U))"
  by (cases T) (auto simp add: cb_discard_def cb_simps)

lemma discard_wrapped_less:
  "n < length R \<Longrightarrow>
   cb_discard \<lparr>cb_data = H @ F @ s # R, cb_read_pointer = Suc (length H + length F),
            cb_write_pointer = length H\<rparr> n =
   Inr (\<lparr>cb_data = H @ F @ s # R, cb_read_pointer = Suc (length H + length F + n),
         cb_write_pointer = length H\<rparr>, n)"
  by (auto simp add: cb_discard_def cb_simps)

lemma discard_wrapped_more:
  "length R \<le> n \<Longrightarrow> R \<noteq> [] \<Longrightarrow>
   cb_discard \<lparr>cb_data = H @ F @ s # R, cb_read_pointer = Suc (length H + length F),
            cb_write_pointer = length H\<rparr> n =
   Inr (\<lparr>cb_data = H @ F @ s # R, cb_read_pointer = min (n - length R) (length H),
         cb_write_pointer = length H\<rparr>, length R + min (n - length R) (length H))"
  by (auto simp add: cb_discard_def cb_simps)

subsection \<open>readable\_ranges on each layout\<close>

lemma readable_front:
  "cb_readable_ranges \<lparr>cb_data = U @ F @ [s], cb_read_pointer = 0, cb_write_pointer = length U\<rparr> =
   Inr (if U = [] then [] else [(0, length U)])"
  by (auto simp add: cb_readable_ranges_def cb_simps)

lemma readable_middle:
  "T \<noteq> [] \<Longrightarrow> cb_readable_ranges \<lparr>cb_data = G @ s # U @ T, cb_read_pointer = Suc (length G),
            cb_write_pointer = Suc (length G + length U)\<rparr> =
   Inr (if U = [] then [] else [(Suc (length G), length U)])"
  by (auto simp add: cb_readable_ranges_def cb_simps)

lemma readable_wrapped:
  "R \<noteq> [] \<Longrightarrow> cb_readable_ranges \<lparr>cb_data = H @ F @ s # R,
       cb_read_pointer = Suc (length H + length F), cb_write_pointer = length H\<rparr> =
   Inr ((Suc (length H + length F), length R) # (if H = [] then [] else [(0, length H)]))"
  by (auto simp add: cb_readable_ranges_def cb_simps)


subsection \<open>read on each layout\<close>

lemma read_front:
  "cb_read \<lparr>cb_data = U @ F @ [s], cb_read_pointer = 0, cb_write_pointer = length U\<rparr> buf =
   Inr (\<lparr>cb_data = U @ F @ [s], cb_read_pointer = min (length buf) (length U),
         cb_write_pointer = length U\<rparr>,
        take (length buf) U @ drop (length U) buf, min (length buf) (length U))"
  by (auto simp add: cb_read_def readable_front discard_front cb_simps)

lemma read_middle:
  "T \<noteq> [] \<Longrightarrow> cb_read \<lparr>cb_data = G @ s # U @ T, cb_read_pointer = Suc (length G),
            cb_write_pointer = Suc (length G + length U)\<rparr> buf =
   Inr (\<lparr>cb_data = G @ s # U @ T, cb_read_pointer = Suc (length G + min (length buf) (length U)),
         cb_write_pointer = Suc (length G + length U)\<rparr>,
        take (length buf) U @ drop (length U) buf, min (length buf) (length U))"
  by (auto simp add: cb_read_def readable_middle discard_middle cb_simps)

lemma read_wrapped_less:
  "length buf < length R \<Longrightarrow>
   cb_read \<lparr>cb_data = H @ F @ s # R, cb_read_pointer = Suc (length H + length F),
            cb_write_pointer = length H\<rparr> buf =
   Inr (\<lparr>cb_data = H @ F @ s # R, cb_read_pointer = Suc (length H + length F + length buf),
         cb_write_pointer = length H\<rparr>, take (length buf) R, length buf)"
  by (cases R) (auto simp add: cb_read_def readable_wrapped discard_wrapped_less cb_simps)

lemma read_wrapped_more:
  "length R \<le> length buf \<Longrightarrow> R \<noteq> [] \<Longrightarrow>
   cb_read \<lparr>cb_data = H @ F @ s # R, cb_read_pointer = Suc (length H + length F),
            cb_write_pointer = length H\<rparr> buf =
   Inr (\<lparr>cb_data = H @ F @ s # R, cb_read_pointer = min (length buf - length R) (length H),
         cb_write_pointer = length H\<rparr>,
        R @ take (length buf - length R) H @ drop (length H + length R) buf,
        length R + min (length buf - length R) (length H))"
  by (auto simp add: cb_read_def readable_wrapped discard_wrapped_more
      discard_wrapped_more [where H = "[]", simplified] cb_simps)


lemma take_min_length: "take (min (length xs) n) xs = take n xs"
  by (simp add: min_def)

lemma take_min_length2: "take (min n (length xs)) xs = take n xs"
  by (simp add: min_def)

lemma drop_min_length: "drop (min (length xs) n) xs = drop n xs"
  by (simp add: min_def)

lemma drop_min_length2: "drop (min n (length xs)) xs = drop n xs"
  by (simp add: min_def)

lemma min_add_diff: "min (a::nat) b + (b - a) = b"
  by (simp add: min_def)

lemmas cb_abs = min_add_diff take_min_length take_min_length2 drop_min_length drop_min_length2 cb_wf_def cb_contents_def cb_size_def cb_free_def cb_end_def

lemma cb_write_ok:
  assumes "cb_wf b"
  shows "\<exists>b'. cb_write b xs = Inr (b', min (length xs) (cb_free b)) \<and> cb_wf b' \<and>
           cb_end b' = cb_end b \<and> cb_read_pointer b' = cb_read_pointer b \<and>
           cb_contents b' = cb_contents b @ take (cb_free b) xs"
  using assms
proof (cases rule: cb_cases)
  case (front U F s)
  show ?thesis unfolding front write_front by (auto simp add: cb_abs)
next
  case (middle G s U T)
  show ?thesis
  proof (cases "length xs < length T")
    case True
    show ?thesis unfolding middle write_middle_less [OF True] using True
      by (auto simp add: cb_abs)
  next
    case False
    then have le: "length T \<le> length xs" by simp
    show ?thesis
    proof (cases "length xs - length T \<le> length G")
      case True
      then have m: "min (length xs - length T) (length G) = length xs - length T" by simp
      show ?thesis unfolding middle write_middle_more [OF le middle(2)] m using le middle(2) True
        by (auto simp add: cb_abs)
    next
      case False
      then have m: "min (length xs - length T) (length G) = length G" by simp
      have ta: "take (length G + length T) xs =
          take (length T) xs @ take (length G) (drop (length T) xs)"
        by (metis add.commute take_add)
      show ?thesis unfolding middle write_middle_more [OF le middle(2)] m using le middle(2) False
        by (auto simp add: cb_abs ta)
    qed
  qed
next
  case (wrapped H F s R)
  from wrapped(2) obtain r R' where "R = r # R'" by (cases R) auto
  then show ?thesis unfolding wrapped write_wrapped [OF wrapped(2)]
    by (auto simp add: cb_abs)
qed


lemma cb_length_contents: "cb_wf b \<Longrightarrow> length (cb_contents b) = cb_size b"
  by (auto simp add: cb_abs)

lemma cb_size_free: "cb_wf b \<Longrightarrow> cb_size b + cb_free b + 1 = cb_end b"
  by (auto simp add: cb_abs)

lemma cb_read_ok:
  assumes "cb_wf b"
  shows "\<exists>b'. cb_read b buf =
             Inr (b', take (length buf) (cb_contents b) @ drop (cb_size b) buf,
                  min (length buf) (cb_size b)) \<and>
           cb_wf b' \<and> cb_data b' = cb_data b \<and> cb_write_pointer b' = cb_write_pointer b \<and>
           cb_contents b' = drop (length buf) (cb_contents b)"
  using assms
proof (cases rule: cb_cases)
  case (front U F s)
  show ?thesis unfolding front read_front by (auto simp add: cb_abs)
next
  case (middle G s U T)
  from middle(2) obtain t T' where "T = t # T'" by (cases T) auto
  then show ?thesis unfolding middle read_middle [OF middle(2)]
    by (auto simp add: cb_abs)
next
  case (wrapped H F s R)
  show ?thesis
  proof (cases "length buf < length R")
    case True
    show ?thesis unfolding wrapped read_wrapped_less [OF True] using True
      by (auto simp add: cb_abs)
  next
    case False
    then have le: "length R \<le> length buf" by simp
    show ?thesis unfolding wrapped read_wrapped_more [OF le wrapped(2)] using le wrapped(2)
      by (auto simp add: cb_abs add.commute)
  qed
qed

lemma cb_discard_ok:
  assumes "cb_wf b"
  shows "\<exists>b'. cb_discard b n = Inr (b', min n (cb_size b)) \<and>
           cb_wf b' \<and> cb_data b' = cb_data b \<and> cb_write_pointer b' = cb_write_pointer b \<and>
           cb_contents b' = drop n (cb_contents b)"
  using assms
proof (cases rule: cb_cases)
  case (front U F s)
  show ?thesis unfolding front discard_front by (auto simp add: cb_abs)
next
  case (middle G s U T)
  from middle(2) obtain t T' where "T = t # T'" by (cases T) auto
  then show ?thesis unfolding middle discard_middle [OF middle(2)]
    by (auto simp add: cb_abs)
next
  case (wrapped H F s R)
  show ?thesis
  proof (cases "n < length R")
    case True
    show ?thesis unfolding wrapped discard_wrapped_less [OF True] using True
      by (auto simp add: cb_abs)
  next
    case False
    then have le: "length R \<le> n" by simp
    show ?thesis unfolding wrapped discard_wrapped_more [OF le wrapped(2)] using le wrapped(2)
      by (auto simp add: cb_abs)
  qed
qed

lemma cb_commit_wf:
  assumes "cb_wf b" "cb_commit b n = Inr (b', m)"
  shows "cb_wf b' \<and> cb_data b' = cb_data b \<and> cb_read_pointer b' = cb_read_pointer b"
  using assms(1)
proof (cases rule: cb_cases)
  case (front U F s)
  with assms(2) show ?thesis by (auto simp add: commit_front cb_abs)
next
  case (middle G s U T)
  show ?thesis
  proof (cases "n < length T")
    case True
    with assms(2) middle show ?thesis by (auto simp add: commit_middle_less cb_abs)
  next
    case False
    then have le: "length T \<le> n" by simp
    with assms(2) middle show ?thesis by (auto simp add: commit_middle_more cb_abs)
  qed
next
  case (wrapped H F s R)
  with assms(2) commit_wrapped_any [of H F s R n b' m] show ?thesis
    by (auto simp add: cb_abs)
qed


subsection \<open>writable\_ranges on each layout\<close>

lemma writable_front:
  "cb_writable_ranges \<lparr>cb_data = U @ F @ [s], cb_read_pointer = 0, cb_write_pointer = length U\<rparr> =
   (if F = [] then [] else [(length U, length F)])"
  by (auto simp add: cb_simps)

lemma writable_middle:
  "T \<noteq> [] \<Longrightarrow> cb_writable_ranges \<lparr>cb_data = G @ s # U @ T, cb_read_pointer = Suc (length G),
            cb_write_pointer = Suc (length G + length U)\<rparr> =
   (Suc (length G + length U), length T) # (if G = [] then [] else [(0, length G)])"
  by (auto simp add: cb_simps)

lemma writable_wrapped:
  "cb_writable_ranges \<lparr>cb_data = H @ F @ s # R,
       cb_read_pointer = Suc (length H + length F), cb_write_pointer = length H\<rparr> =
   (if F = [] then [] else [(length H, length F)])"
  by (auto simp add: cb_simps)

lemma cb_writable_total:
  assumes "cb_wf b"
  shows "total_size (cb_writable_ranges b) = cb_free b"
  using assms
proof (cases rule: cb_cases)
  case (front U F s)
  show ?thesis unfolding front writable_front
    by (auto simp add: cb_abs total_size_def span_size_def)
next
  case (middle G s U T)
  show ?thesis unfolding middle writable_middle [OF middle(2)]
    by (auto simp add: cb_abs total_size_def span_size_def)
next
  case (wrapped H F s R)
  show ?thesis unfolding wrapped writable_wrapped
    by (auto simp add: cb_abs total_size_def span_size_def)
qed

lemma cb_readable_ok:
  assumes "cb_wf b"
  shows "\<exists>rs. cb_readable_ranges b = Inr rs \<and> ranges_get (cb_data b) rs = cb_contents b \<and>
           total_size rs = cb_size b \<and> (\<forall>r \<in> set rs. \<not> span_empty r)"
  using assms
proof (cases rule: cb_cases)
  case (front U F s)
  show ?thesis unfolding front readable_front
    by (auto simp add: cb_abs total_size_def span_size_def ranges_get_def span_get_def span_empty_def)
next
  case (middle G s U T)
  show ?thesis unfolding middle readable_middle [OF middle(2)]
    by (auto simp add: cb_abs total_size_def span_size_def ranges_get_def span_get_def span_empty_def)
next
  case (wrapped H F s R)
  show ?thesis unfolding wrapped readable_wrapped [OF wrapped(2)] using wrapped(2)
    by (auto simp add: cb_abs total_size_def span_size_def ranges_get_def span_get_def span_empty_def)
qed

lemma cb_commit_ok:
  assumes "cb_wf b" and "n \<le> cb_free b"
  shows "\<exists>b'. cb_commit b n = Inr (b', n) \<and>
           cb_write_pointer b' = (cb_write_pointer b + n) mod cb_end b \<and>
           cb_write_pointer b + n < 2 * cb_end b \<and>
           cb_read_pointer b' = cb_read_pointer b \<and> cb_data b' = cb_data b \<and>
           cb_contents b' =
             cb_contents b @ take n (ranges_get (cb_data b) (cb_writable_ranges b)) \<and>
           cb_size b' = cb_size b + n"
  using assms(1)
proof (cases rule: cb_cases)
  case (front U F s)
  from assms(2) have n: "n \<le> length F" unfolding front by (simp add: cb_abs)
  then have m: "min (length F) n = n" by simp
  show ?thesis unfolding front commit_front writable_front m using n
    by (auto simp add: cb_abs ranges_get_def span_get_def)
next
  case (middle G s U T)
  from assms(2) have n: "n \<le> length G + length T" unfolding middle by (simp add: cb_abs)
  show ?thesis
  proof (cases "n < length T")
    case True
    show ?thesis unfolding middle commit_middle_less [OF True] writable_middle [OF middle(2)]
      using True by (auto simp add: cb_abs ranges_get_def span_get_def)
  next
    case False
    then have le: "length T \<le> n" by simp
    with n have m: "min (length G) (n - length T) = n - length T" by simp
    have w: "Suc (length G + length U) + n =
        (n - length T) + Suc (length G + length U + length T)" using le by simp
    have "n - length T < Suc (length G + length U + length T)" using n by simp
    then have "(Suc (length G + length U) + n) mod Suc (length G + length U + length T)
        = n - length T"
      unfolding w by (metis mod_add_self2 mod_less)
    then have modfact: "Suc (length G + length U + n) mod
        Suc (length G + (length U + length T)) = n - length T"
      by (simp add: add.assoc)
    show ?thesis
      unfolding middle commit_middle_more [OF le middle(2)] writable_middle [OF middle(2)] m
      using le n modfact by (auto simp add: cb_abs ranges_get_def span_get_def)
  qed
next
  case (wrapped H F s R)
  from assms(2) have n: "n \<le> length F" unfolding wrapped by (simp add: cb_abs)
  show ?thesis unfolding wrapped commit_wrapped [OF n] writable_wrapped using n
    by (auto simp add: cb_abs ranges_get_def span_get_def)
qed


lemma cb_writable_nonempty:
  assumes "cb_wf b"
  shows "cb_writable_ranges b = [] \<longleftrightarrow> cb_free b = 0"
  using assms
proof (cases rule: cb_cases)
  case (front U F s)
  show ?thesis unfolding front writable_front by (auto simp add: cb_abs)
next
  case (middle G s U T)
  show ?thesis unfolding middle writable_middle [OF middle(2)] using middle(2)
    by (auto simp add: cb_abs)
next
  case (wrapped H F s R)
  show ?thesis unfolding wrapped writable_wrapped by (auto simp add: cb_abs)
qed

lemma cb_new_wf: "cb_wf (cb_new buffer_size junk) \<and> cb_end (cb_new buffer_size junk) = buffer_size + 1"
  by (simp add: cb_new_def cb_wf_def cb_end_def cb_begin_def)

lemma cb_step_wf:
  assumes "cb_wf b" and "cb_step b x = Inr b'"
  shows "cb_wf b' \<and> cb_end b' = cb_end b"
proof (cases x)
  case (CbWrite xs)
  with assms cb_write_ok [OF assms(1), of xs] show ?thesis by auto
next
  case (CbCommit n)
  with assms obtain m where "cb_commit b n = Inr (b', m)"
    by (auto split: sum.splits)
  from cb_commit_wf [OF assms(1) this] show ?thesis by (simp add: cb_end_def)
next
  case (CbRead buf)
  with assms cb_read_ok [OF assms(1), of buf] show ?thesis by (auto simp add: cb_end_def)
next
  case (CbDiscard n)
  with assms cb_discard_ok [OF assms(1), of n] show ?thesis by (auto simp add: cb_end_def)
next
  case CbClear
  with assms show ?thesis by (auto simp add: cb_clear_def cb_wf_def cb_end_def cb_begin_def)
next
  case CbWritableRanges
  with assms show ?thesis by auto
next
  case CbReadableRanges
  with assms show ?thesis by (auto split: sum.splits)
qed

lemma cb_run_wf:
  "cb_wf b \<Longrightarrow> cb_run b ops = Inr b' \<Longrightarrow> cb_wf b' \<and> cb_end b' = cb_end b"
proof (induction ops arbitrary: b)
  case Nil
  then show ?case by simp
next
  case (Cons x ops)
  from Cons.prems(2) obtain b1 where step: "cb_step b x = Inr b1" and run: "cb_run b1 ops = Inr b'"
    by (auto split: sum.splits)
  from cb_step_wf [OF Cons.prems(1) step] Cons.IH [OF _ run] show ?case by simp
qed

lemma cb_reachable_wf:
  assumes "cb_run (cb_new buffer_size junk) ops = Inr b"
  shows "cb_wf b \<and> cb_end b = buffer_size + 1"
  using cb_run_wf [OF _ assms] cb_new_wf [of buffer_size junk] by simp


section \<open>Properties of dynamic\_buffer\<close>

subsection \<open>Extents\<close>

lemmas fb_defs = take_min_length take_min_length2 drop_min_length drop_min_length2 fb_wf_def read_window_def write_window_def span_size_def fb_contents_def
  span_get_def copy_to_def

lemma fb_new_wf: "fb_wf N (fb_new N z) \<and> fb_write_pos (fb_new N z) = 0 \<and>
    fb_read_pos (fb_new N z) = 0 \<and> fb_contents (fb_new N z) = []"
  by (simp add: fb_new_def fb_defs)

lemma fb_cases [consumes 1]:
  assumes "fb_wf N e"
  obtains A B C where
    "e = \<lparr>fb_data = A @ B @ C, fb_read_pos = length A, fb_write_pos = length A + length B\<rparr>"
    "length A + length B + length C = N"
proof -
  obtain d r w where e: "e = \<lparr>fb_data = d, fb_read_pos = r, fb_write_pos = w\<rparr>"
    by (cases e) simp
  from assms e have len: "length d = N" and rw: "r \<le> w" and w: "w \<le> N"
    by (simp_all add: fb_wf_def)
  define A where "A = take r d"
  define B where "B = take (w - r) (drop r d)"
  define C where "C = drop (w - r) (drop r d)"
  have "drop r d = B @ C" unfolding B_def C_def by (rule append_take_drop_id [symmetric])
  then have d: "d = A @ B @ C" using append_take_drop_id [of r d] by (simp add: A_def)
  have la: "length A = r" using rw w len by (simp add: A_def)
  have lb: "length B = w - r" using rw w len by (simp add: B_def)
  have lc: "length C = N - w" using rw w len by (simp add: C_def)
  have "e = \<lparr>fb_data = A @ B @ C, fb_read_pos = length A, fb_write_pos = length A + length B\<rparr>"
    using e d la lb rw by simp
  moreover have "length A + length B + length C = N" using la lb lc rw w by simp
  ultimately show thesis by (rule that)
qed

lemma fb_write_ok:
  assumes "fb_wf N e"
  shows "\<exists>e'. fb_write e buf = (e', min (length buf) (N - fb_write_pos e)) \<and> fb_wf N e' \<and>
           fb_read_pos e' = fb_read_pos e \<and>
           fb_write_pos e' = fb_write_pos e + min (length buf) (N - fb_write_pos e) \<and>
           fb_contents e' = fb_contents e @ take (N - fb_write_pos e) buf"
  using assms
proof (cases rule: fb_cases)
  case (1 A B C)
  from 1(2) have n: "N - (length A + length B) = length C" by simp
  show ?thesis unfolding 1(1) using 1(2)
    by (auto simp add: fb_write_def fb_defs Let_def n)
qed

lemma fb_commit_ok:
  assumes "fb_wf N e"
  shows "\<exists>e'. fb_commit e n = (e', min n (N - fb_write_pos e)) \<and> fb_wf N e' \<and>
           fb_read_pos e' = fb_read_pos e \<and>
           fb_write_pos e' = fb_write_pos e + min n (N - fb_write_pos e)"
  using assms
proof (cases rule: fb_cases)
  case (1 A B C)
  from 1(2) have n: "N - (length A + length B) = length C" by simp
  show ?thesis unfolding 1(1) using 1(2)
    by (auto simp add: fb_commit_def fb_defs Let_def n)
qed

lemma fb_discard_ok:
  assumes "fb_wf N e"
  shows "\<exists>e'. fb_discard e n = (e', min n (fb_write_pos e - fb_read_pos e)) \<and> fb_wf N e' \<and>
           fb_write_pos e' = fb_write_pos e \<and>
           fb_read_pos e' = fb_read_pos e + min n (fb_write_pos e - fb_read_pos e) \<and>
           fb_contents e' = drop n (fb_contents e)"
  using assms
proof (cases rule: fb_cases)
  case (1 A B C)
  show ?thesis unfolding 1(1) using 1(2)
    by (auto simp add: fb_discard_def fb_defs Let_def)
qed

lemma fb_read_ok:
  assumes "fb_wf N e"
  shows "\<exists>e'. fb_read e buf = (e', take (length buf) (fb_contents e),
             min (length buf) (fb_write_pos e - fb_read_pos e)) \<and> fb_wf N e' \<and>
           fb_write_pos e' = fb_write_pos e \<and>
           fb_read_pos e' = fb_read_pos e + min (length buf) (fb_write_pos e - fb_read_pos e) \<and>
           fb_contents e' = drop (length buf) (fb_contents e)"
  using assms
proof (cases rule: fb_cases)
  case (1 A B C)
  show ?thesis unfolding 1(1) using 1(2)
    by (auto simp add: fb_read_def fb_defs Let_def)
qed

lemma fb_length_contents:
  "fb_wf N e \<Longrightarrow> length (fb_contents e) = fb_write_pos e - fb_read_pos e"
  by (auto simp add: fb_defs)


subsection \<open>ensure\_minfree\<close>

lemma minfree_le: "minfree N \<le> N"
  by (simp add: minfree_def)

lemma fb_new_write_size: "span_size (write_window (fb_new N z)) = N"
  by (simp add: fb_new_def fb_defs)

lemma fb_full_iff: "fb_wf N e \<Longrightarrow> span_size (write_window e) = 0 \<longleftrightarrow> fb_write_pos e = N"
  by (auto simp add: fb_defs)

lemma db_ensure_minfree_ok:
  assumes "db_inv N s"
  shows "\<exists>s'. db_ensure_minfree N z s = Inr s' \<and> db_inv N s' \<and> db_extents s' \<noteq> [] \<and>
           db_contents s' = db_contents s \<and>
           minfree N \<le> span_size (write_window (last (db_extents s')))"
proof -
  obtain exts wp where s: "s = \<lparr>db_extents = exts, db_write_pointer = wp\<rparr>"
    by (cases s) simp
  show ?thesis
  proof (cases "exts = []")
    case True
    with assms s have "wp = 0" by (simp add: db_inv_def db_linv_def)
    with True s assms show ?thesis
      using fb_new_wf [of N z] minfree_le [of N]
      by (simp add: db_ensure_minfree_def emplace_back_def db_inv_def db_linv_def Let_def
          fb_new_write_size db_contents_def)
  next
    case ne: False
    with assms s have wp: "wp < length exts" by (simp add: db_inv_def)
    show ?thesis
    proof (cases "span_size (write_window (last exts)) < minfree N")
      case False
      with ne s assms show ?thesis by (simp add: db_ensure_minfree_def)
    next
      case True
      from assms s wp have wfc: "fb_wf N (exts ! wp)" by (simp add: db_inv_def db_linv_def)
      have nth: "(exts @ [fb_new N z]) ! wp = exts ! wp" using wp by (simp add: nth_append)
      show ?thesis
      proof (cases "fb_write_pos (exts ! wp) = N")
        case full: True
        have t: "take (Suc wp) exts = take wp exts @ [exts ! wp]"
          using wp by (rule take_Suc_conv_app_nth)
        have d: "set (drop (Suc (Suc wp)) exts) \<subseteq> set (drop (Suc wp) exts)"
          by (metis set_drop_subset_set_drop Suc_n_not_le_n nat_le_linear)
        from True ne s assms wp full wfc t d show ?thesis
          using fb_new_wf [of N z] minfree_le [of N] fb_full_iff [OF wfc]
          by (auto simp add: db_ensure_minfree_def emplace_back_def db_inv_def db_linv_def Let_def
              fb_new_write_size db_contents_def nth dest: in_set_dropD)
      next
        case notfull: False
        from True ne s assms wp notfull wfc show ?thesis
          using fb_new_wf [of N z] minfree_le [of N] fb_full_iff [OF wfc]
          by (auto simp add: db_ensure_minfree_def emplace_back_def db_inv_def db_linv_def Let_def
              fb_new_write_size db_contents_def nth dest: in_set_dropD)
      qed
    qed
  qed
qed


subsection \<open>The extents around the write pointer\<close>

lemma db_split:
  assumes "db_write_pointer s < length (db_extents s)"
  obtains pre cur post where
    "s = \<lparr>db_extents = pre @ cur # post, db_write_pointer = length pre\<rparr>"
proof -
  obtain exts wp where s: "s = \<lparr>db_extents = exts, db_write_pointer = wp\<rparr>"
    by (cases s) simp
  with assms have wp: "wp < length exts" by simp
  then have "exts = take wp exts @ exts ! wp # drop (Suc wp) exts"
    by (rule id_take_nth_drop)
  moreover have "length (take wp exts) = wp" using wp by simp
  ultimately have "s = \<lparr>db_extents = take wp exts @ exts ! wp # drop (Suc wp) exts,
      db_write_pointer = length (take wp exts)\<rparr>"
    using s by simp
  then show thesis by (rule that)
qed

lemma db_linv_split:
  "db_linv N \<lparr>db_extents = pre @ cur # post, db_write_pointer = length pre\<rparr> \<longleftrightarrow>
     0 < N \<and> (\<forall>e \<in> set pre. fb_wf N e \<and> fb_write_pos e = N) \<and> fb_wf N cur \<and>
     (\<forall>e \<in> set post. fb_wf N e \<and> fb_write_pos e = 0 \<and> fb_read_pos e = 0) \<and>
     (\<forall>e \<in> set (tl (pre @ [cur])). fb_read_pos e = 0) \<and>
     fb_read_pos (hd (pre @ [cur])) < N"
  by (cases pre) (auto simp add: db_linv_def fb_wf_def)

lemma db_linv_end:
  "db_linv N \<lparr>db_extents = pre, db_write_pointer = length pre\<rparr> \<longleftrightarrow>
     0 < N \<and> (\<forall>e \<in> set pre. fb_wf N e \<and> fb_write_pos e = N) \<and>
     (\<forall>e \<in> set (tl pre). fb_read_pos e = 0) \<and>
     (pre \<noteq> [] \<longrightarrow> fb_read_pos (hd pre) < N)"
  by (auto simp add: db_linv_def)

lemma post_contents:
  "\<forall>e \<in> set post. fb_wf N e \<and> fb_write_pos e = 0 \<and> fb_read_pos e = 0 \<Longrightarrow>
   concat (map fb_contents post) = []"
  by (induction post) (auto simp add: fb_defs)


lemma db_linv_succ:
  assumes "db_linv N \<lparr>db_extents = pre @ cur # post, db_write_pointer = length pre\<rparr>"
    and "fb_wf N e'" and "fb_write_pos e' = N" and "fb_read_pos e' = fb_read_pos cur"
  shows "db_linv N \<lparr>db_extents = pre @ e' # post, db_write_pointer = Suc (length pre)\<rparr>"
proof (cases post)
  case Nil
  with assms show ?thesis
    using db_linv_end [of N "pre @ [e']"] db_linv_split [of N pre cur post]
    by (cases pre) auto
next
  case (Cons p post')
  with assms show ?thesis
    using db_linv_split [of N "pre @ [e']" p post'] db_linv_split [of N pre cur post]
    by (cases pre) auto
qed

lemma db_linv_same:
  assumes "db_linv N \<lparr>db_extents = pre @ cur # post, db_write_pointer = length pre\<rparr>"
    and "fb_wf N e'" and "fb_read_pos e' = fb_read_pos cur"
  shows "db_inv N \<lparr>db_extents = pre @ e' # post, db_write_pointer = length pre\<rparr>"
  using assms db_linv_split [of N pre cur post] db_linv_split [of N pre e' post]
  by (cases pre) (auto simp add: db_inv_def)

lemma db_contents_split:
  assumes "db_linv N \<lparr>db_extents = pre @ cur # post, db_write_pointer = n\<rparr>"
    and "\<forall>e \<in> set post. fb_wf N e \<and> fb_write_pos e = 0 \<and> fb_read_pos e = 0"
  shows "db_contents \<lparr>db_extents = pre @ cur # post, db_write_pointer = m\<rparr> =
         concat (map fb_contents pre) @ fb_contents cur"
  using post_contents [OF assms(2)] by (simp add: db_contents_def)

subsection \<open>write\<close>

lemma db_write_loop_body:
  "db_write_loop N z \<lparr>db_extents = pre @ cur # post, db_write_pointer = length pre\<rparr> buf t =
     (if drop (snd (fb_write cur buf)) buf = [] then
        (case db_ensure_minfree N z
           \<lparr>db_extents = pre @ fst (fb_write cur buf) # post, db_write_pointer = length pre\<rparr> of
           Inl e \<Rightarrow> Some (Inl e)
         | Inr s3 \<Rightarrow> Some (Inr (s3, t)))
      else db_write_loop N z
        \<lparr>db_extents = pre @ fst (fb_write cur buf) # post, db_write_pointer = Suc (length pre)\<rparr>
        (drop (snd (fb_write cur buf)) buf) t)"
  by (subst db_write_loop.simps) (simp add: Let_def split: prod.splits)

lemma db_write_loop_emplace:
  "db_write_loop N z \<lparr>db_extents = pre, db_write_pointer = length pre\<rparr> buf t =
     (if drop (snd (fb_write (fb_new N z) buf)) buf = [] then
        (case db_ensure_minfree N z
           \<lparr>db_extents = pre @ [fst (fb_write (fb_new N z) buf)], db_write_pointer = length pre\<rparr> of
           Inl e \<Rightarrow> Some (Inl e)
         | Inr s3 \<Rightarrow> Some (Inr (s3, t)))
      else db_write_loop N z
        \<lparr>db_extents = pre @ [fst (fb_write (fb_new N z) buf)], db_write_pointer = Suc (length pre)\<rparr>
        (drop (snd (fb_write (fb_new N z) buf)) buf) t)"
  by (subst db_write_loop.simps) (simp add: Let_def emplace_back_def split: prod.splits)


lemma db_write_iter:
  assumes inv: "db_linv N \<lparr>db_extents = pre @ cur # post, db_write_pointer = length pre\<rparr>"
    and ne: "buf \<noteq> []"
    and IH: "drop (snd (fb_write cur buf)) buf \<noteq> [] \<Longrightarrow>
      \<exists>s'. db_write_loop N z
             \<lparr>db_extents = pre @ fst (fb_write cur buf) # post,
                db_write_pointer = Suc (length pre)\<rparr>
             (drop (snd (fb_write cur buf)) buf) t = Some (Inr (s', t)) \<and>
           db_inv N s' \<and> db_extents s' \<noteq> [] \<and>
           db_contents s' =
             db_contents \<lparr>db_extents = pre @ fst (fb_write cur buf) # post,
                db_write_pointer = Suc (length pre)\<rparr> @ drop (snd (fb_write cur buf)) buf"
  shows "\<exists>s'. db_write_loop N z
             \<lparr>db_extents = pre @ cur # post, db_write_pointer = length pre\<rparr> buf t =
             Some (Inr (s', t)) \<and>
           db_inv N s' \<and> db_extents s' \<noteq> [] \<and>
           db_contents s' = concat (map fb_contents pre) @ fb_contents cur @ buf"
proof -
  from inv have wfc: "fb_wf N cur"
    and post: "\<forall>e \<in> set post. fb_wf N e \<and> fb_write_pos e = 0 \<and> fb_read_pos e = 0"
    by (simp_all add: db_linv_split)
  define n where "n = min (length buf) (N - fb_write_pos cur)"
  from fb_write_ok [OF wfc, of buf] obtain e' where
    w: "fb_write cur buf = (e', n)" and wfe: "fb_wf N e'"
    and re: "fb_read_pos e' = fb_read_pos cur"
    and we: "fb_write_pos e' = fb_write_pos cur + n"
    and ce: "fb_contents e' = fb_contents cur @ take (N - fb_write_pos cur) buf"
    unfolding n_def by blast
  have cn: "take (N - fb_write_pos cur) buf = take n buf"
    unfolding n_def by (simp add: take_min_length)
  show ?thesis
  proof (cases "drop n buf = []")
    case True
    then have all: "take n buf = buf" by simp
    from db_linv_same [OF inv wfe re]
    have inv2: "db_inv N \<lparr>db_extents = pre @ e' # post, db_write_pointer = length pre\<rparr>" .
    from db_ensure_minfree_ok [OF inv2, of z] obtain s3 where
      e3: "db_ensure_minfree N z
            \<lparr>db_extents = pre @ e' # post, db_write_pointer = length pre\<rparr> = Inr s3"
      and i3: "db_inv N s3" and n3: "db_extents s3 \<noteq> []"
      and c3: "db_contents s3 =
            db_contents \<lparr>db_extents = pre @ e' # post, db_write_pointer = length pre\<rparr>"
      by blast
    have "db_contents s3 = concat (map fb_contents pre) @ fb_contents cur @ buf"
      unfolding c3 using ce cn all by (simp add: db_contents_def post_contents [OF post])
    with e3 i3 n3 True w show ?thesis
      by (simp add: db_write_loop_body)
  next
    case False
    with IH w obtain s' where
      l: "db_write_loop N z
             \<lparr>db_extents = pre @ e' # post, db_write_pointer = Suc (length pre)\<rparr>
             (drop n buf) t = Some (Inr (s', t))"
      and i: "db_inv N s'" and ne': "db_extents s' \<noteq> []"
      and c: "db_contents s' =
             db_contents \<lparr>db_extents = pre @ e' # post, db_write_pointer = Suc (length pre)\<rparr>
               @ drop n buf"
      by auto
    have "db_contents s' = concat (map fb_contents pre) @ fb_contents cur @ buf"
      unfolding c using ce cn by (simp add: db_contents_def post_contents [OF post])
    with l i ne' False w show ?thesis
      by (simp add: db_write_loop_body)
  qed
qed


lemma db_write_loop_ok:
  assumes "db_linv N s" and "buf \<noteq> []"
  shows "\<exists>s'. db_write_loop N z s buf t = Some (Inr (s', t)) \<and> db_inv N s' \<and>
           db_extents s' \<noteq> [] \<and> db_contents s' = db_contents s @ buf"
  using assms
proof (induction "length buf + (length (db_extents s) - db_write_pointer s)"
    arbitrary: s buf rule: less_induct)
  case less
  show ?case
  proof (cases "db_write_pointer s < length (db_extents s)")
    case True
    then obtain pre cur post where
      s: "s = \<lparr>db_extents = pre @ cur # post, db_write_pointer = length pre\<rparr>"
      by (rule db_split)
    from less.prems(1) have inv: "db_linv N \<lparr>db_extents = pre @ cur # post,
        db_write_pointer = length pre\<rparr>"
      unfolding s .
    then have wfc: "fb_wf N cur"
      and post: "\<forall>e \<in> set post. fb_wf N e \<and> fb_write_pos e = 0 \<and> fb_read_pos e = 0"
      by (simp_all add: db_linv_split)
    from fb_write_ok [OF wfc, of buf] obtain e' where
      w: "fb_write cur buf = (e', min (length buf) (N - fb_write_pos cur))"
      and wfe: "fb_wf N e'" and re: "fb_read_pos e' = fb_read_pos cur"
      and we: "fb_write_pos e' = fb_write_pos cur + min (length buf) (N - fb_write_pos cur)"
      by blast
    have "\<exists>s'. db_write_loop N z
             \<lparr>db_extents = pre @ cur # post, db_write_pointer = length pre\<rparr> buf t =
             Some (Inr (s', t)) \<and>
           db_inv N s' \<and> db_extents s' \<noteq> [] \<and>
           db_contents s' = concat (map fb_contents pre) @ fb_contents cur @ buf"
    proof (rule db_write_iter [OF inv less.prems(2)])
      assume left: "drop (snd (fb_write cur buf)) buf \<noteq> []"
      then have short: "min (length buf) (N - fb_write_pos cur) < length buf"
        unfolding w by simp
      then have "fb_write_pos e' = N"
        using we wfc by (simp add: fb_wf_def min_def split: if_splits)
      from db_linv_succ [OF inv wfe this re]
      have inv': "db_linv N \<lparr>db_extents = pre @ e' # post,
          db_write_pointer = Suc (length pre)\<rparr>" .
      show "\<exists>s'. db_write_loop N z
             \<lparr>db_extents = pre @ fst (fb_write cur buf) # post,
                db_write_pointer = Suc (length pre)\<rparr>
             (drop (snd (fb_write cur buf)) buf) t = Some (Inr (s', t)) \<and>
           db_inv N s' \<and> db_extents s' \<noteq> [] \<and>
           db_contents s' =
             db_contents \<lparr>db_extents = pre @ fst (fb_write cur buf) # post,
                db_write_pointer = Suc (length pre)\<rparr> @ drop (snd (fb_write cur buf)) buf"
        unfolding w fst_conv snd_conv
      proof (rule less.hyps [OF _ inv'])
        show "length (drop (min (length buf) (N - fb_write_pos cur)) buf) +
            (length (db_extents \<lparr>db_extents = pre @ e' # post,
                db_write_pointer = Suc (length pre)\<rparr>) -
             db_write_pointer \<lparr>db_extents = pre @ e' # post,
                db_write_pointer = Suc (length pre)\<rparr>)
            < length buf + (length (db_extents s) - db_write_pointer s)"
          unfolding s by simp
        show "drop (min (length buf) (N - fb_write_pos cur)) buf \<noteq> []"
          using left unfolding w by simp
      qed
    qed
    then show ?thesis
      unfolding s by (simp add: db_contents_def post_contents [OF post])
  next
    case False
    with less.prems(1) have wp: "db_write_pointer s = length (db_extents s)"
      by (simp add: db_linv_def)
    define pre where "pre = db_extents s"
    have s: "s = \<lparr>db_extents = pre, db_write_pointer = length pre\<rparr>"
      using wp by (cases s) (simp add: pre_def)
    from less.prems(1) have N: "0 < N" by (simp add: db_linv_def)
    have inv: "db_linv N \<lparr>db_extents = pre @ fb_new N z # [],
        db_write_pointer = length pre\<rparr>"
      using less.prems(1) fb_new_wf [of N z] N unfolding s db_linv_end db_linv_split
      by (cases pre) auto
    from fb_write_ok [of N "fb_new N z" buf] fb_new_wf [of N z] obtain e' where
      w: "fb_write (fb_new N z) buf = (e', min (length buf) N)"
      and wfe: "fb_wf N e'" and re: "fb_read_pos e' = fb_read_pos (fb_new N z)"
      and we: "fb_write_pos e' = min (length buf) N"
      by auto
    have pos: "0 < min (length buf) N" using N less.prems(2) by simp
    have "\<exists>s'. db_write_loop N z
             \<lparr>db_extents = pre @ fb_new N z # [], db_write_pointer = length pre\<rparr> buf t =
             Some (Inr (s', t)) \<and>
           db_inv N s' \<and> db_extents s' \<noteq> [] \<and>
           db_contents s' = concat (map fb_contents pre) @ fb_contents (fb_new N z) @ buf"
    proof (rule db_write_iter [OF inv less.prems(2)])
      assume left: "drop (snd (fb_write (fb_new N z) buf)) buf \<noteq> []"
      then have short: "min (length buf) N < length buf"
        unfolding w by simp
      then have "fb_write_pos e' = N"
        using we by (simp add: min_def split: if_splits)
      from db_linv_succ [OF inv wfe this re]
      have inv': "db_linv N \<lparr>db_extents = pre @ e' # [],
          db_write_pointer = Suc (length pre)\<rparr>" .
      show "\<exists>s'. db_write_loop N z
             \<lparr>db_extents = pre @ fst (fb_write (fb_new N z) buf) # [],
                db_write_pointer = Suc (length pre)\<rparr>
             (drop (snd (fb_write (fb_new N z) buf)) buf) t = Some (Inr (s', t)) \<and>
           db_inv N s' \<and> db_extents s' \<noteq> [] \<and>
           db_contents s' =
             db_contents \<lparr>db_extents = pre @ fst (fb_write (fb_new N z) buf) # [],
                db_write_pointer = Suc (length pre)\<rparr> @
             drop (snd (fb_write (fb_new N z) buf)) buf"
        unfolding w fst_conv snd_conv
      proof (rule less.hyps [OF _ inv'])
        show "length (drop (min (length buf) N) buf) +
            (length (db_extents \<lparr>db_extents = pre @ e' # [],
                db_write_pointer = Suc (length pre)\<rparr>) -
             db_write_pointer \<lparr>db_extents = pre @ e' # [],
                db_write_pointer = Suc (length pre)\<rparr>)
            < length buf + (length (db_extents s) - db_write_pointer s)"
          unfolding s using pos less.prems(2) by simp
        show "drop (min (length buf) N) buf \<noteq> []"
          using left unfolding w by simp
      qed
    qed
    moreover have "db_write_loop N z s buf t =
        db_write_loop N z \<lparr>db_extents = pre @ fb_new N z # [],
          db_write_pointer = length pre\<rparr> buf t"
      unfolding s db_write_loop_emplace db_write_loop_body by simp
    ultimately show ?thesis
      unfolding s using fb_new_wf [of N z] by (simp add: db_contents_def)
  qed
qed

lemma db_new_inv: "0 < N \<Longrightarrow> db_inv N db_new"
  by (simp add: db_inv_def db_linv_def db_new_def)

lemma db_write_ok:
  assumes "db_inv N s"
  shows "\<exists>s'. db_write N z s xs = Some (Inr (s', length xs)) \<and> db_inv N s' \<and>
           db_contents s' = db_contents s @ xs"
proof (cases "xs = []")
  case True
  with assms show ?thesis by (simp add: db_write_def)
next
  case False
  from assms have l: "db_linv N s" by (simp add: db_inv_def)
  then have "db_write_pointer s \<le> length (db_extents s)" by (simp add: db_linv_def)
  with db_write_loop_ok [OF l False, of z "length xs"] False show ?thesis
    by (auto simp add: db_write_def)
qed


subsection \<open>commit\<close>

lemma db_commit_loop_body:
  "db_commit_loop N z \<lparr>db_extents = pre @ cur # post, db_write_pointer = length pre\<rparr> left n =
     (if \<not> snd (fb_commit cur left) > 0 then Inl AssertionFailed
      else if left - snd (fb_commit cur left) = 0 then
        (case db_ensure_minfree N z
           \<lparr>db_extents = pre @ fst (fb_commit cur left) # post, db_write_pointer = length pre\<rparr> of
           Inl e \<Rightarrow> Inl e
         | Inr s2 \<Rightarrow> Inr (s2, n))
      else db_commit_loop N z
        \<lparr>db_extents = pre @ fst (fb_commit cur left) # post, db_write_pointer = Suc (length pre)\<rparr>
        (left - snd (fb_commit cur left)) n)"
  by (subst db_commit_loop.simps) (simp add: Let_def split: prod.splits)

lemma db_commit_loop_ok:
  assumes "db_linv N s" and "db_commit_loop N z s left n = Inr (s', m)"
  shows "db_inv N s' \<and> m = n \<and> db_extents s' \<noteq> [] \<and>
         minfree N \<le> span_size (write_window (last (db_extents s')))"
  using assms
proof (induction "length (db_extents s) - db_write_pointer s" arbitrary: s left rule: less_induct)
  case less
  show ?case
  proof (cases "db_write_pointer s < length (db_extents s)")
    case False
    with less.prems(2) show ?thesis by (subst (asm) db_commit_loop.simps) simp
  next
    case True
    then obtain pre cur post where
      s: "s = \<lparr>db_extents = pre @ cur # post, db_write_pointer = length pre\<rparr>"
      by (rule db_split)
    from less.prems(1) have inv: "db_linv N \<lparr>db_extents = pre @ cur # post,
        db_write_pointer = length pre\<rparr>"
      unfolding s .
    then have wfc: "fb_wf N cur" by (simp add: db_linv_split)
    define k where "k = min left (N - fb_write_pos cur)"
    from fb_commit_ok [OF wfc, of left] obtain e' where
      c: "fb_commit cur left = (e', k)"
      and wfe: "fb_wf N e'" and re: "fb_read_pos e' = fb_read_pos cur"
      and we: "fb_write_pos e' = fb_write_pos cur + k"
      unfolding k_def by blast
    from less.prems(2) have body:
      "(if \<not> 0 < k then Inl AssertionFailed
        else if left - k = 0 then
          (case db_ensure_minfree N z
             \<lparr>db_extents = pre @ e' # post, db_write_pointer = length pre\<rparr> of
             Inl e \<Rightarrow> Inl e
           | Inr s2 \<Rightarrow> Inr (s2, n))
        else db_commit_loop N z
          \<lparr>db_extents = pre @ e' # post, db_write_pointer = Suc (length pre)\<rparr>
          (left - k) n) = Inr (s', m)"
      unfolding s db_commit_loop_body c fst_conv snd_conv .
    then have pos: "0 < k" by (simp split: if_splits)
    show ?thesis
    proof (cases "left - k = 0")
      case True
      from db_linv_same [OF inv wfe re]
      have inv2: "db_inv N \<lparr>db_extents = pre @ e' # post, db_write_pointer = length pre\<rparr>" .
      from db_ensure_minfree_ok [OF inv2, of z] body pos True show ?thesis
        by auto
    next
      case False
      then have "fb_write_pos e' = N"
        using we wfc unfolding k_def by (simp add: fb_wf_def min_def split: if_splits)
      from db_linv_succ [OF inv wfe this re]
      have inv': "db_linv N \<lparr>db_extents = pre @ e' # post,
          db_write_pointer = Suc (length pre)\<rparr>" .
      from body pos False have rec: "db_commit_loop N z
          \<lparr>db_extents = pre @ e' # post, db_write_pointer = Suc (length pre)\<rparr>
          (left - k) n = Inr (s', m)"
        by simp
      show ?thesis
        by (rule less.hyps [OF _ inv' rec]) (simp add: s)
    qed
  qed
qed

lemma db_commit_ok:
  assumes "db_inv N s" and "db_commit N z s n = Inr (s', m)"
  shows "db_inv N s' \<and> m = n \<and>
         (0 < n \<longrightarrow> db_extents s' \<noteq> [] \<and>
            minfree N \<le> span_size (write_window (last (db_extents s')))) \<and>
         (n = 0 \<longrightarrow> s' = s)"
proof (cases "n = 0")
  case True
  with assms show ?thesis by (simp add: db_commit_def)
next
  case False
  from assms(1) have l: "db_linv N s" by (simp add: db_inv_def)
  from assms(2) False have "db_commit_loop N z s n n = Inr (s', m)"
    by (simp add: db_commit_def split: if_splits)
  from db_commit_loop_ok [OF l this] False show ?thesis by simp
qed

subsection \<open>read and discard\<close>

lemma fb_read_size: "fb_wf N e \<Longrightarrow> span_size (read_window e) = length (fb_contents e)"
  by (auto simp add: fb_defs)

lemma db_front_empty:
  assumes "db_inv N \<lparr>db_extents = front # rest, db_write_pointer = wp\<rparr>"
    and "span_size (read_window front) = 0"
  shows "\<forall>e \<in> set (front # rest). span_size (read_window e) = 0"
proof -
  from assms(1) have wff: "fb_wf N front" and rp: "fb_read_pos front < N"
    by (simp_all add: db_inv_def db_linv_def)
  with assms(2) have notfull: "fb_write_pos front \<noteq> N"
    by (auto simp add: fb_defs)
  have "wp = 0"
  proof (rule ccontr)
    assume "wp \<noteq> 0"
    then obtain wp' where "wp = Suc wp'" by (cases wp) auto
    with assms(1) have "fb_write_pos front = N" by (simp add: db_inv_def db_linv_def)
    with notfull show False by simp
  qed
  with assms(1) have "\<forall>e \<in> set rest. fb_write_pos e = 0 \<and> fb_wf N e"
    by (simp add: db_inv_def db_linv_def)
  then have "\<forall>e \<in> set rest. span_size (read_window e) = 0"
    by (auto simp add: fb_defs)
  with assms(2) show ?thesis by simp
qed

lemma db_front_keep:
  assumes "db_inv N \<lparr>db_extents = front # rest, db_write_pointer = wp\<rparr>"
    and "fb_wf N front'" and "fb_write_pos front' = fb_write_pos front"
    and "\<not> (span_size (read_window front') = 0 \<and> span_size (write_window front') = 0)"
  shows "db_inv N \<lparr>db_extents = front' # rest, db_write_pointer = wp\<rparr>"
proof -
  from assms(2,4) have "fb_read_pos front' < N" by (auto simp add: fb_defs)
  with assms(1,2,3) show ?thesis
    by (cases wp) (auto simp add: db_inv_def db_linv_def)
qed


lemma db_remove_front_eq:
  "span_size (write_window front) = 0 \<Longrightarrow>
   db_remove_front \<lparr>db_extents = front # rest, db_write_pointer = wp\<rparr> =
     Inr \<lparr>db_extents = rest, db_write_pointer = wp - 1\<rparr>"
  by (simp add: db_remove_front_def)

lemma db_inv_tail:
  assumes "db_inv N \<lparr>db_extents = front # rest, db_write_pointer = wp\<rparr>"
  shows "db_inv N \<lparr>db_extents = rest, db_write_pointer = wp - 1\<rparr>"
proof -
  from assms have N: "0 < N" and wf: "\<forall>e \<in> set rest. fb_wf N e"
    and r0: "\<forall>e \<in> set rest. fb_read_pos e = 0"
    and wp: "wp < Suc (length rest)"
    and tk: "\<forall>e \<in> set (take wp (front # rest)). fb_write_pos e = N"
    and dr: "\<forall>e \<in> set (drop wp rest). fb_write_pos e = 0"
    by (simp_all add: db_inv_def db_linv_def)
  have hd: "rest \<noteq> [] \<longrightarrow> fb_read_pos (hd rest) < N"
    using r0 N by (cases rest) simp_all
  have tl: "\<forall>e \<in> set (tl rest). fb_read_pos e = 0"
    using r0 by (cases rest) simp_all
  show ?thesis
  proof (cases wp)
    case 0
    have "\<forall>e \<in> set (drop (Suc 0) rest). fb_write_pos e = 0"
      using dr 0 by (auto dest: in_set_dropD)
    with 0 N wf hd tl show ?thesis
      by (cases rest) (simp_all add: db_inv_def db_linv_def)
  next
    case (Suc wp')
    with tk have "\<forall>e \<in> set (take wp' rest). fb_write_pos e = N" by simp
    with Suc N wf hd tl dr wp show ?thesis
      by (simp add: db_inv_def db_linv_def)
  qed
qed


lemma db_discard_loop_nil:
  "db_discard_loop \<lparr>db_extents = [], db_write_pointer = wp\<rparr> n nleft discards =
     Some (Inr (\<lparr>db_extents = [], db_write_pointer = wp\<rparr>, discards))"
  by (subst db_discard_loop.simps) simp

lemma db_discard_loop_cons:
  "db_discard_loop \<lparr>db_extents = front # rest, db_write_pointer = wp\<rparr> n nleft discards =
     (if span_size (read_window front) = 0
      then Some (Inr (\<lparr>db_extents = front # rest, db_write_pointer = wp\<rparr>, discards))
      else
        (case (if span_size (read_window (fst (fb_discard front nleft))) = 0 \<and>
                  span_size (write_window (fst (fb_discard front nleft))) = 0
               then db_remove_front
                 \<lparr>db_extents = fst (fb_discard front nleft) # rest, db_write_pointer = wp\<rparr>
               else Inr \<lparr>db_extents = fst (fb_discard front nleft) # rest,
                 db_write_pointer = wp\<rparr>) of
           Inl e \<Rightarrow> Some (Inl e)
         | Inr s2 \<Rightarrow>
             if discards + snd (fb_discard front nleft) = n
             then Some (Inr (s2, discards + snd (fb_discard front nleft)))
             else db_discard_loop s2 n (nleft - snd (fb_discard front nleft))
                    (discards + snd (fb_discard front nleft))))"
  by (subst db_discard_loop.simps) (simp add: Let_def case_prod_beta)

lemma db_contents_nil:
  assumes "\<forall>e \<in> set exts. span_size (read_window e) = 0"
  shows "concat (map fb_contents exts) = []"
  using assms by (induction exts) (auto simp add: fb_contents_def span_get_def span_size_def)

text \<open>The front extent after a read or discard of \<open>m\<close> units from it.\<close>

lemma db_front_after:
  assumes inv: "db_inv N \<lparr>db_extents = front # rest, db_write_pointer = wp\<rparr>"
    and wff: "fb_wf N front'" and wpf: "fb_write_pos front' = fb_write_pos front"
  shows "\<exists>s2. (if span_size (read_window front') = 0 \<and> span_size (write_window front') = 0
               then db_remove_front \<lparr>db_extents = front' # rest, db_write_pointer = wp\<rparr>
               else Inr \<lparr>db_extents = front' # rest, db_write_pointer = wp\<rparr>) = Inr s2 \<and>
           db_inv N s2 \<and>
           db_contents s2 = fb_contents front' @ concat (map fb_contents rest)"
proof (cases "span_size (read_window front') = 0 \<and> span_size (write_window front') = 0")
  case True
  then have "fb_contents front' = []"
    using fb_read_size [OF wff] by simp
  moreover have "db_inv N \<lparr>db_extents = rest, db_write_pointer = wp - 1\<rparr>"
    using db_inv_tail [OF inv] .
  ultimately show ?thesis
    unfolding if_P [OF True] using True db_remove_front_eq [of front' rest wp]
    by (simp add: db_contents_def)
next
  case False
  from db_front_keep [OF inv wff wpf False] show ?thesis
    unfolding if_not_P [OF False] by (simp add: db_contents_def)
qed


lemma db_discard_loop_ok:
  assumes "db_inv N s" and "discards + nleft = n"
  shows "\<exists>s'. db_discard_loop s n nleft discards =
             Some (Inr (s', discards + min nleft (length (db_contents s)))) \<and>
           db_inv N s' \<and> db_contents s' = drop nleft (db_contents s)"
  using assms
proof (induction nleft arbitrary: s discards rule: less_induct)
  case (less nleft)
  obtain exts wp where s: "s = \<lparr>db_extents = exts, db_write_pointer = wp\<rparr>"
    by (cases s) simp
  show ?case
  proof (cases exts)
    case Nil
    with s less.prems show ?thesis
      by (simp add: db_discard_loop_nil db_contents_def)
  next
    case (Cons front rest)
    from less.prems(1) have inv: "db_inv N \<lparr>db_extents = front # rest, db_write_pointer = wp\<rparr>"
      unfolding s Cons .
    then have wff: "fb_wf N front" by (simp add: db_inv_def db_linv_def)
    define C where "C = concat (map fb_contents rest)"
    have cs: "db_contents s = fb_contents front @ C"
      unfolding s Cons C_def by (simp add: db_contents_def)
    show ?thesis
    proof (cases "span_size (read_window front) = 0")
      case True
      from db_contents_nil [OF db_front_empty [OF inv True]]
      have "db_contents s = []" unfolding s Cons by (simp add: db_contents_def)
      with True less.prems(1) show ?thesis
        unfolding s Cons by (simp add: db_discard_loop_cons)
    next
      case False
      define m where "m = min nleft (fb_write_pos front - fb_read_pos front)"
      from fb_discard_ok [OF wff, of nleft] obtain front' where
        d: "fb_discard front nleft = (front', m)" and wff': "fb_wf N front'"
        and wpf: "fb_write_pos front' = fb_write_pos front"
        and cf: "fb_contents front' = drop nleft (fb_contents front)"
        unfolding m_def by blast
      have lf: "length (fb_contents front) = fb_write_pos front - fb_read_pos front"
        by (rule fb_length_contents [OF wff])
      have m: "m = min nleft (length (fb_contents front))" unfolding m_def lf ..
      from False have fpos: "0 < length (fb_contents front)"
        using fb_read_size [OF wff] by simp
      from db_front_after [OF inv wff' wpf] obtain s2 where
        s2: "(if span_size (read_window front') = 0 \<and> span_size (write_window front') = 0
               then db_remove_front \<lparr>db_extents = front' # rest, db_write_pointer = wp\<rparr>
               else Inr \<lparr>db_extents = front' # rest, db_write_pointer = wp\<rparr>) = Inr s2"
        and inv2: "db_inv N s2"
        and c2: "db_contents s2 = fb_contents front' @ C"
        unfolding C_def by blast
      have step: "db_discard_loop s n nleft discards =
          (if discards + m = n then Some (Inr (s2, discards + m))
           else db_discard_loop s2 n (nleft - m) (discards + m))"
        unfolding s Cons db_discard_loop_cons d fst_conv snd_conv s2 using False by simp
      show ?thesis
      proof (cases "discards + m = n")
        case True
        with less.prems(2) have mn: "m = nleft" by simp
        with m have le: "nleft \<le> length (fb_contents front)" by simp
        then have "db_contents s2 = drop nleft (db_contents s)"
          unfolding c2 cf cs by simp
        moreover have "min nleft (length (db_contents s)) = nleft"
          unfolding cs using le by simp
        ultimately show ?thesis
          unfolding step using True inv2 mn by simp
      next
        case ne: False
        with less.prems(2) have "m \<noteq> nleft" by auto
        with m have gt: "length (fb_contents front) < nleft"
          and mf: "m = length (fb_contents front)" by (simp_all add: min_def split: if_splits)
        have c2': "db_contents s2 = C" unfolding c2 cf using gt by simp
        have lt: "nleft - m < nleft" using fpos mf gt by simp
        have acc: "discards + m + (nleft - m) = n" using less.prems(2) gt mf by simp
        from less.IH [OF lt inv2 acc] obtain s' where
          l: "db_discard_loop s2 n (nleft - m) (discards + m) =
                Some (Inr (s', discards + m + min (nleft - m) (length (db_contents s2))))"
          and i: "db_inv N s'" and c: "db_contents s' = drop (nleft - m) (db_contents s2)"
          by blast
        have "discards + m + min (nleft - m) (length (db_contents s2)) =
            discards + min nleft (length (db_contents s))"
          unfolding c2' cs mf using gt by (auto simp add: min_def)
        moreover have "drop (nleft - m) (db_contents s2) = drop nleft (db_contents s)"
          unfolding c2' cs mf using gt by simp
        ultimately show ?thesis
          unfolding step using ne l i c by simp
      qed
    qed
  qed
qed

lemma db_discard_ok:
  assumes "db_inv N s"
  shows "\<exists>s'. db_discard s n = Some (Inr (s', min n (length (db_contents s)))) \<and>
           db_inv N s' \<and> db_contents s' = drop n (db_contents s)"
  using db_discard_loop_ok [OF assms, of 0 n n] by (simp add: db_discard_def)


lemma db_read_loop_nil:
  "db_read_loop \<lparr>db_extents = [], db_write_pointer = wp\<rparr> sd out buf br =
     Some (Inr (\<lparr>db_extents = [], db_write_pointer = wp\<rparr>, out @ buf, br))"
  by (subst db_read_loop.simps) simp

lemma db_read_loop_cons:
  "db_read_loop \<lparr>db_extents = front # rest, db_write_pointer = wp\<rparr> sd out buf br =
     (if span_size (read_window front) = 0
      then Some (Inr (\<lparr>db_extents = front # rest, db_write_pointer = wp\<rparr>, out @ buf, br))
      else
        (case (if span_size (read_window (fst (fb_read front buf))) = 0 \<and>
                  span_size (write_window (fst (fb_read front buf))) = 0
               then db_remove_front
                 \<lparr>db_extents = fst (fb_read front buf) # rest, db_write_pointer = wp\<rparr>
               else Inr \<lparr>db_extents = fst (fb_read front buf) # rest,
                 db_write_pointer = wp\<rparr>) of
           Inl e \<Rightarrow> Some (Inl e)
         | Inr s2 \<Rightarrow>
             if br + snd (snd (fb_read front buf)) = sd
             then Some (Inr (s2, (out @ fst (snd (fb_read front buf))) @
                    drop (snd (snd (fb_read front buf))) buf,
                    br + snd (snd (fb_read front buf))))
             else db_read_loop s2 sd (out @ fst (snd (fb_read front buf)))
                    (drop (snd (snd (fb_read front buf))) buf)
                    (br + snd (snd (fb_read front buf)))))"
  by (subst db_read_loop.simps) (simp add: Let_def case_prod_beta)

lemma db_read_loop_ok:
  assumes "db_inv N s" and "br + length buf = sd"
  shows "\<exists>s'. db_read_loop s sd out buf br =
             Some (Inr (s', out @ take (length buf) (db_contents s) @
                            drop (length (db_contents s)) buf,
                        br + min (length buf) (length (db_contents s)))) \<and>
           db_inv N s' \<and> db_contents s' = drop (length buf) (db_contents s)"
  using assms
proof (induction "length buf" arbitrary: s out buf br rule: less_induct)
  case less
  obtain exts wp where s: "s = \<lparr>db_extents = exts, db_write_pointer = wp\<rparr>"
    by (cases s) simp
  show ?case
  proof (cases exts)
    case Nil
    with s less.prems show ?thesis
      by (simp add: db_read_loop_nil db_contents_def)
  next
    case (Cons front rest)
    from less.prems(1) have inv: "db_inv N \<lparr>db_extents = front # rest, db_write_pointer = wp\<rparr>"
      unfolding s Cons .
    then have wff: "fb_wf N front" by (simp add: db_inv_def db_linv_def)
    define C where "C = concat (map fb_contents rest)"
    define F where "F = fb_contents front"
    have cs: "db_contents s = F @ C"
      unfolding s Cons C_def F_def by (simp add: db_contents_def)
    show ?thesis
    proof (cases "span_size (read_window front) = 0")
      case True
      from db_contents_nil [OF db_front_empty [OF inv True]]
      have "db_contents s = []" unfolding s Cons by (simp add: db_contents_def)
      with True less.prems(1) show ?thesis
        unfolding s Cons by (simp add: db_read_loop_cons)
    next
      case False
      define m where "m = min (length buf) (fb_write_pos front - fb_read_pos front)"
      from fb_read_ok [OF wff, of buf] obtain front' where
        d: "fb_read front buf = (front', take (length buf) F, m)" and wff': "fb_wf N front'"
        and wpf: "fb_write_pos front' = fb_write_pos front"
        and cf: "fb_contents front' = drop (length buf) F"
        unfolding m_def F_def by blast
      have lf: "length F = fb_write_pos front - fb_read_pos front"
        unfolding F_def by (rule fb_length_contents [OF wff])
      have m: "m = min (length buf) (length F)" unfolding m_def lf ..
      from False have fpos: "0 < length F"
        using fb_read_size [OF wff] unfolding F_def by simp
      from db_front_after [OF inv wff' wpf] obtain s2 where
        s2: "(if span_size (read_window front') = 0 \<and> span_size (write_window front') = 0
               then db_remove_front \<lparr>db_extents = front' # rest, db_write_pointer = wp\<rparr>
               else Inr \<lparr>db_extents = front' # rest, db_write_pointer = wp\<rparr>) = Inr s2"
        and inv2: "db_inv N s2"
        and c2: "db_contents s2 = fb_contents front' @ C"
        unfolding C_def by blast
      have step: "db_read_loop s sd out buf br =
          (if br + m = sd then Some (Inr (s2, (out @ take (length buf) F) @ drop m buf, br + m))
           else db_read_loop s2 sd (out @ take (length buf) F) (drop m buf) (br + m))"
        unfolding s Cons db_read_loop_cons d fst_conv snd_conv s2 using False by simp
      show ?thesis
      proof (cases "br + m = sd")
        case True
        with less.prems(2) have mn: "m = length buf" by simp
        with m have le: "length buf \<le> length F" by simp
        then have "db_contents s2 = drop (length buf) (db_contents s)"
          unfolding c2 cf cs by simp
        moreover have "min (length buf) (length (db_contents s)) = length buf"
          unfolding cs using le by simp
        moreover have "(out @ take (length buf) F) @ drop m buf =
            out @ take (length buf) (db_contents s) @ drop (length (db_contents s)) buf"
          unfolding cs mn using le by simp
        ultimately show ?thesis
          unfolding step using True inv2 mn by simp
      next
        case ne: False
        with less.prems(2) have "m \<noteq> length buf" by auto
        with m have gt: "length F < length buf"
          and mf: "m = length F" by (simp_all add: min_def split: if_splits)
        have c2': "db_contents s2 = C" unfolding c2 cf using gt by simp
        have "length (drop m buf) = length buf - m" by simp
        with fpos mf gt have lt: "length (drop m buf) < length buf" by linarith
        have acc: "br + m + length (drop m buf) = sd" using less.prems(2) gt mf by simp
        from less.hyps [OF lt inv2 acc, of "out @ take (length buf) F"] obtain s' where
          l: "db_read_loop s2 sd (out @ take (length buf) F) (drop m buf) (br + m) =
                Some (Inr (s', (out @ take (length buf) F) @
                    take (length (drop m buf)) (db_contents s2) @
                    drop (length (db_contents s2)) (drop m buf),
                  br + m + min (length (drop m buf)) (length (db_contents s2))))"
          and i: "db_inv N s'"
          and c: "db_contents s' = drop (length (drop m buf)) (db_contents s2)"
          by blast
        have "br + m + min (length (drop m buf)) (length (db_contents s2)) =
            br + min (length buf) (length (db_contents s))"
          unfolding c2' cs mf using gt by (auto simp add: min_def)
        moreover have "drop (length (drop m buf)) (db_contents s2) =
            drop (length buf) (db_contents s)"
          unfolding c2' cs mf using gt by simp
        moreover have "(out @ take (length buf) F) @
              take (length (drop m buf)) (db_contents s2) @
              drop (length (db_contents s2)) (drop m buf) =
            out @ take (length buf) (db_contents s) @ drop (length (db_contents s)) buf"
          unfolding c2' cs mf using gt by (simp add: add.commute)
        ultimately show ?thesis
          unfolding step using ne l i c by simp
      qed
    qed
  qed
qed

lemma db_read_ok:
  assumes "db_inv N s"
  shows "\<exists>s'. db_read s buf =
             Some (Inr (s', take (length buf) (db_contents s) @
                            drop (length (db_contents s)) buf,
                        min (length buf) (length (db_contents s)))) \<and>
           db_inv N s' \<and> db_contents s' = drop (length buf) (db_contents s)"
proof (cases "buf = []")
  case True
  with assms show ?thesis by (simp add: db_read_def)
next
  case False
  with db_read_loop_ok [OF assms, of 0 buf "length buf" "[]"] show ?thesis
    by (simp add: db_read_def)
qed

subsection \<open>writable\_ranges and sequences of operations\<close>

lemma db_writable_loop_ok:
  "db_writable_loop N exts wp idxs = Inr ret \<Longrightarrow>
   ret = map (\<lambda>i. (i, write_window (exts ! i))) idxs \<and>
   (\<forall>i \<in> set idxs. 0 < span_size (write_window (exts ! i)))"
  by (induction idxs arbitrary: ret) (auto split: if_splits sum.splits)

lemma db_writable_ranges_ok:
  assumes "db_inv N s" and "db_writable_ranges N z s = Inr (s', rs)"
  shows "db_ensure_minfree N z s = Inr s' \<and> db_inv N s' \<and> db_extents s' \<noteq> [] \<and>
         db_contents s' = db_contents s \<and>
         minfree N \<le> span_size (write_window (last (db_extents s'))) \<and>
         rs \<noteq> [] \<and> (\<forall>r \<in> set rs. 0 < span_size (snd r)) \<and>
         minfree N \<le> sum_list (map (\<lambda>r. span_size (snd r)) rs)"
proof -
  from db_ensure_minfree_ok [OF assms(1), of z] obtain s1 where
    e: "db_ensure_minfree N z s = Inr s1" and i: "db_inv N s1" and ne: "db_extents s1 \<noteq> []"
    and c: "db_contents s1 = db_contents s"
    and mf: "minfree N \<le> span_size (write_window (last (db_extents s1)))"
    by blast
  from i ne have wp: "db_write_pointer s1 < length (db_extents s1)" by (simp add: db_inv_def)
  from assms(2) e wp have s': "s' = s1"
    and l: "db_writable_loop N (db_extents s1) (db_write_pointer s1)
        [db_write_pointer s1 ..< length (db_extents s1)] = Inr rs"
    by (auto simp add: db_writable_ranges_def split: sum.splits)
  from db_writable_loop_ok [OF l] have
    rs: "rs = map (\<lambda>i. (i, write_window (db_extents s1 ! i)))
        [db_write_pointer s1 ..< length (db_extents s1)]"
    and pos: "\<forall>i \<in> set [db_write_pointer s1 ..< length (db_extents s1)].
        0 < span_size (write_window (db_extents s1 ! i))"
    by simp_all
  have lastin: "(length (db_extents s1) - 1, write_window (last (db_extents s1))) \<in> set rs"
    unfolding rs using wp ne by (auto simp add: last_conv_nth)
  then have "span_size (write_window (last (db_extents s1)))
      \<in> set (map (\<lambda>r. span_size (snd r)) rs)"
    by force
  then have "span_size (write_window (last (db_extents s1)))
      \<le> sum_list (map (\<lambda>r. span_size (snd r)) rs)"
    by (simp add: member_le_sum_list)
  with mf have tot: "minfree N \<le> sum_list (map (\<lambda>r. span_size (snd r)) rs)" by simp
  from lastin have "rs \<noteq> []" by auto
  moreover have "\<forall>r \<in> set rs. 0 < span_size (snd r)" unfolding rs using pos by auto
  ultimately show ?thesis using e i ne c mf tot s' by simp
qed

lemma db_step_inv:
  assumes "db_inv N s" and "db_step N z s x = Some (Inr s')"
  shows "db_inv N s'"
proof (cases x)
  case (DbWrite xs)
  with assms db_write_ok [OF assms(1), of z xs] show ?thesis by auto
next
  case (DbCommit n)
  with assms obtain m where "db_commit N z s n = Inr (s', m)"
    by (auto split: sum.splits)
  from db_commit_ok [OF assms(1) this] show ?thesis by simp
next
  case (DbRead buf)
  with assms db_read_ok [OF assms(1), of buf] show ?thesis by auto
next
  case (DbDiscard n)
  with assms db_discard_ok [OF assms(1), of n] show ?thesis by auto
next
  case DbWritableRanges
  with assms obtain rs where "db_writable_ranges N z s = Inr (s', rs)"
    by (auto split: sum.splits)
  from db_writable_ranges_ok [OF assms(1) this] show ?thesis by simp
next
  case DbReadableRanges
  with assms show ?thesis by simp
next
  case DbEnsureMinfree
  with assms db_ensure_minfree_ok [OF assms(1), of z] show ?thesis by auto
qed

lemma db_run_inv:
  "db_inv N s \<Longrightarrow> db_run N z s ops = Some (Inr s') \<Longrightarrow> db_inv N s'"
proof (induction ops arbitrary: s)
  case Nil
  then show ?case by simp
next
  case (Cons x ops)
  from Cons.prems(2) obtain s1 where step: "db_step N z s x = Some (Inr s1)"
    and run: "db_run N z s1 ops = Some (Inr s')"
    by (auto split: option.splits sum.splits)
  from Cons.IH [OF db_step_inv [OF Cons.prems(1) step] run] show ?case .
qed

lemma db_reachable_inv:
  assumes "0 < N" and "db_run N z db_new ops = Some (Inr s)"
  shows "db_inv N s"
  using db_run_inv [OF db_new_inv [OF assms(1)] assms(2)] .

lemma db_length_concat:
  "\<forall>e \<in> set exts. fb_wf N e \<Longrightarrow>
   length (concat (map fb_contents exts)) =
     sum_list (map (\<lambda>e. span_size (read_window e)) exts)"
  by (induction exts) (auto simp add: fb_read_size)

lemma db_length_contents:
  assumes "db_inv N s"
  shows "length (db_contents s) = db_size s"
proof -
  from assms have "\<forall>e \<in> set (db_extents s). fb_wf N e" by (simp add: db_inv_def db_linv_def)
  from db_length_concat [OF this] show ?thesis by (simp add: db_contents_def db_size_def)
qed


subsection \<open>Empty buffers\<close>

lemma cb_empty_ops:
  assumes "cb_wf b" and "cb_size b = 0"
  shows "cb_read b buf = Inr (b, buf, 0) \<and> cb_discard b n = Inr (b, 0) \<and>
         cb_readable_ranges b = Inr []"
proof -
  from assms have "cb_read_pointer b = cb_write_pointer b"
    by (auto simp add: cb_wf_def cb_size_def cb_end_def split: if_splits)
  then show ?thesis
    by (simp add: cb_read_def cb_readable_ranges_def cb_discard_def)
qed

lemma db_size_zero:
  "db_size s = 0 \<longleftrightarrow> (\<forall>e \<in> set (db_extents s). span_size (read_window e) = 0)"
  by (simp add: db_size_def)

lemma db_empty_ops:
  assumes "db_size s = 0"
  shows "db_read s buf = Some (Inr (s, buf, 0)) \<and> db_discard s n = Some (Inr (s, 0)) \<and>
         db_readable_ranges s = []"
proof -
  obtain exts wp where s: "s = \<lparr>db_extents = exts, db_write_pointer = wp\<rparr>"
    by (cases s) simp
  from assms have z: "\<forall>e \<in> set exts. span_size (read_window e) = 0"
    unfolding s by (simp add: db_size_zero)
  have "db_readable_ranges s = []"
    unfolding s db_readable_ranges_def using z
    by (auto simp add: filter_empty_conv dest: set_zip_rightD)
  moreover have "db_read s buf = Some (Inr (s, buf, 0))"
    unfolding s using z
    by (cases exts) (simp_all add: db_read_def db_read_loop_nil db_read_loop_cons)
  moreover have "db_discard s n = Some (Inr (s, 0))"
    unfolding s using z
    by (cases exts) (simp_all add: db_discard_def db_discard_loop_nil db_discard_loop_cons)
  ultimately show ?thesis by simp
qed

subsection \<open>Segments without capacity\<close>

lemma fb_write_no_room:
  "fb_data e = [] \<Longrightarrow> fb_write e buf = (e, 0)"
  by (simp add: fb_write_def write_window_def span_size_def copy_to_def)

lemma db_write_loop_no_room:
  assumes "db_write_loop N z s buf t = Some y"
  shows "\<not> (N = 0 \<and> buf \<noteq> [] \<and> db_write_pointer s \<le> length (db_extents s) \<and>
            (\<forall>e \<in> set (db_extents s). fb_data e = []))"
proof (rule db_write_loop.raw_induct
    [where P = "\<lambda>N z s buf t y. \<not> (N = 0 \<and> buf \<noteq> [] \<and>
        db_write_pointer s \<le> length (db_extents s) \<and>
        (\<forall>e \<in> set (db_extents s). fb_data e = []))", OF _ assms])
  fix f :: "nat \<Rightarrow> 'a \<Rightarrow> 'a dynamic_buffer \<Rightarrow> 'a list \<Rightarrow> nat \<Rightarrow>
      (error + 'a dynamic_buffer \<times> nat) option"
  fix N z s buf t y
  assume IH: "\<And>N z s buf t y. f N z s buf t = Some y \<Longrightarrow>
      \<not> (N = 0 \<and> buf \<noteq> [] \<and> db_write_pointer s \<le> length (db_extents s) \<and>
         (\<forall>e \<in> set (db_extents s). fb_data e = []))"
  assume body: "(let s1 = if db_write_pointer s = length (db_extents s)
                    then emplace_back N z s else s
      in if \<not> db_write_pointer s1 < length (db_extents s1) then Some (Inl OutOfRange)
         else let (e', n) = fb_write (db_extents s1 ! db_write_pointer s1) buf;
                  s2 = s1\<lparr>db_extents := (db_extents s1)[db_write_pointer s1 := e']\<rparr>;
                  buf' = drop n buf
              in if buf' = []
                 then case db_ensure_minfree N z s2 of
                        Inl e \<Rightarrow> Some (Inl e)
                      | Inr s3 \<Rightarrow> Some (Inr (s3, t))
                 else f N z (s2\<lparr>db_write_pointer := db_write_pointer s2 + 1\<rparr>) buf' t) =
      Some y"
  show "\<not> (N = 0 \<and> buf \<noteq> [] \<and> db_write_pointer s \<le> length (db_extents s) \<and>
      (\<forall>e \<in> set (db_extents s). fb_data e = []))"
  proof
    assume c: "N = 0 \<and> buf \<noteq> [] \<and> db_write_pointer s \<le> length (db_extents s) \<and>
        (\<forall>e \<in> set (db_extents s). fb_data e = [])"
    define s1 where "s1 = (if db_write_pointer s = length (db_extents s)
        then emplace_back N z s else s)"
    from c have wp1: "db_write_pointer s1 < length (db_extents s1)"
      and d1: "\<forall>e \<in> set (db_extents s1). fb_data e = []"
      by (auto simp add: s1_def emplace_back_def fb_new_def)
    from d1 wp1 have "fb_data (db_extents s1 ! db_write_pointer s1) = []" by simp
    then have w: "fb_write (db_extents s1 ! db_write_pointer s1) buf =
        (db_extents s1 ! db_write_pointer s1, 0)"
      by (rule fb_write_no_room)
    from body c wp1 have rec: "f N z (s1\<lparr>db_write_pointer := db_write_pointer s1 + 1\<rparr>) buf t
        = Some y"
      unfolding s1_def [symmetric] by (simp add: Let_def w)
    from IH [OF rec] c wp1 d1 show False by simp
  qed
qed

text \<open>
  With segments of capacity 0 no segment can take a unit, and \<open>write\<close> of a non-empty
  source into a new buffer does not return.
\<close>

lemma db_write_zero_extent_size_diverges:
  "xs \<noteq> [] \<Longrightarrow> db_write 0 z db_new xs = None"
proof (rule ccontr)
  assume ne: "xs \<noteq> []" and "db_write 0 z db_new xs \<noteq> None"
  then obtain y where "db_write_loop 0 z db_new xs (length xs) = Some y"
    by (auto simp add: db_write_def db_new_def)
  from db_write_loop_no_room [OF this] ne show False by (simp add: db_new_def)
qed

section \<open>The claims about circular\_buffer\<close>

text \<open>
  C3. Starting from a fresh ring buffer, after every sequence of write, commit, read,
  discard and clear operations (and range queries) that runs without an abort, the
  number of unread units is at most the capacity less one, where the capacity is the size
  of the backing storage, \<open>buffer_size + 1\<close>. The unread units are counted by
  \<open>cb_size\<close>, which is also the total size of the readable ranges.
\<close>

theorem cb_capacity_bound:
  assumes "cb_run (cb_new buffer_size junk) ops = Inr b"
  shows "cb_size b \<le> cb_end b - 1 \<and> cb_end b = buffer_size + 1 \<and>
         length (cb_contents b) = cb_size b \<and>
         (\<exists>rs. cb_readable_ranges b = Inr rs \<and> total_size rs = cb_size b)"
proof -
  from cb_reachable_wf [OF assms] have wf: "cb_wf b" and e: "cb_end b = buffer_size + 1"
    by simp_all
  from cb_size_free [OF wf] have "cb_size b \<le> cb_end b - 1" by simp
  moreover from cb_readable_ok [OF wf]
  have "\<exists>rs. cb_readable_ranges b = Inr rs \<and> total_size rs = cb_size b" by blast
  ultimately show ?thesis using e cb_length_contents [OF wf] by simp
qed

theorem cb_capacity_bound_witness:
  "cb_run (cb_new 7 (\<lambda>_. CHR ''.''))
     [CbWrite ''ABCDEF'', CbRead ''xxxx'', CbCommit 1, CbDiscard 1, CbWrite ''GHIJKLMNOP'']
     = Inr \<lparr>cb_data = ''HIJKEF.G'', cb_read_pointer = 5, cb_write_pointer = 4\<rparr> \<and>
   cb_size \<lparr>cb_data = ''HIJKEF.G'', cb_read_pointer = 5, cb_write_pointer = 4\<rparr> = 7 \<and>
   cb_size \<lparr>cb_data = ''HIJKEF.G'', cb_read_pointer = 5, cb_write_pointer = 4\<rparr>
     \<le> cb_end \<lparr>cb_data = ''HIJKEF.G'', cb_read_pointer = 5, cb_write_pointer = 4\<rparr> - 1"
proof -
  have run: "cb_run (cb_new 7 (\<lambda>_. CHR ''.''))
     [CbWrite ''ABCDEF'', CbRead ''xxxx'', CbCommit 1, CbDiscard 1, CbWrite ''GHIJKLMNOP'']
     = Inr \<lparr>cb_data = ''HIJKEF.G'', cb_read_pointer = 5, cb_write_pointer = 4\<rparr>"
    by code_simp
  have sz: "cb_size \<lparr>cb_data = ''HIJKEF.G'', cb_read_pointer = 5, cb_write_pointer = 4\<rparr> = 7"
    by code_simp
  from cb_capacity_bound [OF run] run sz show ?thesis by simp
qed

text \<open>
  C4. The wraparound scenario on a ring buffer of capacity 8: write \<open>A..F\<close>, read 4
  (\<open>A..D\<close> come back, \<open>E, F\<close> remain), write \<open>G..K\<close> (the write pointer wraps round the
  end of the storage, so it ends below where it was), read 7: \<open>E..K\<close> come back in
  order. Stated both for a storage of 8 slots (\<open>buffer_size = 7\<close>) and for 8 usable slots
  (\<open>buffer_size = 8\<close>).
\<close>

theorem cb_wraparound_scenario:
  "cb_write (cb_new 7 (\<lambda>_. CHR ''.'')) ''ABCDEF'' =
     Inr (\<lparr>cb_data = ''ABCDEF..'', cb_read_pointer = 0, cb_write_pointer = 6\<rparr>, 6) \<and>
   cb_read \<lparr>cb_data = ''ABCDEF..'', cb_read_pointer = 0, cb_write_pointer = 6\<rparr> ''xxxx'' =
     Inr (\<lparr>cb_data = ''ABCDEF..'', cb_read_pointer = 4, cb_write_pointer = 6\<rparr>, ''ABCD'', 4) \<and>
   cb_contents \<lparr>cb_data = ''ABCDEF..'', cb_read_pointer = 4, cb_write_pointer = 6\<rparr> = ''EF'' \<and>
   cb_write \<lparr>cb_data = ''ABCDEF..'', cb_read_pointer = 4, cb_write_pointer = 6\<rparr> ''GHIJK'' =
     Inr (\<lparr>cb_data = ''IJKDEFGH'', cb_read_pointer = 4, cb_write_pointer = 3\<rparr>, 5) \<and>
   cb_read \<lparr>cb_data = ''IJKDEFGH'', cb_read_pointer = 4, cb_write_pointer = 3\<rparr> ''xxxxxxx'' =
     Inr (\<lparr>cb_data = ''IJKDEFGH'', cb_read_pointer = 3, cb_write_pointer = 3\<rparr>,
          ''EFGHIJK'', 7) \<and>
   cb_write (cb_new 8 (\<lambda>_. CHR ''.'')) ''ABCDEF'' =
     Inr (\<lparr>cb_data = ''ABCDEF...'', cb_read_pointer = 0, cb_write_pointer = 6\<rparr>, 6) \<and>
   cb_read \<lparr>cb_data = ''ABCDEF...'', cb_read_pointer = 0, cb_write_pointer = 6\<rparr> ''xxxx'' =
     Inr (\<lparr>cb_data = ''ABCDEF...'', cb_read_pointer = 4, cb_write_pointer = 6\<rparr>, ''ABCD'', 4) \<and>
   cb_contents \<lparr>cb_data = ''ABCDEF...'', cb_read_pointer = 4, cb_write_pointer = 6\<rparr> = ''EF'' \<and>
   cb_write \<lparr>cb_data = ''ABCDEF...'', cb_read_pointer = 4, cb_write_pointer = 6\<rparr> ''GHIJK'' =
     Inr (\<lparr>cb_data = ''JKCDEFGHI'', cb_read_pointer = 4, cb_write_pointer = 2\<rparr>, 5) \<and>
   cb_read \<lparr>cb_data = ''JKCDEFGHI'', cb_read_pointer = 4, cb_write_pointer = 2\<rparr> ''xxxxxxx'' =
     Inr (\<lparr>cb_data = ''JKCDEFGHI'', cb_read_pointer = 2, cb_write_pointer = 2\<rparr>,
          ''EFGHIJK'', 7)"
  by code_simp

text \<open>
  C7. In every state reached from a fresh ring buffer, a write of more units than the
  free space returns the free space as it was at the call (the total size of the writable
  ranges), leaves the buffer full (no free space, nothing writable, \<open>buffer_size\<close> units
  unread), and appends to the unread units exactly the first free-space-many units of the
  source.
\<close>

theorem cb_short_write:
  assumes "cb_run (cb_new buffer_size junk) ops = Inr b"
    and "length xs > cb_free b"
  shows "total_size (cb_writable_ranges b) = cb_free b \<and>
         (\<exists>b'. cb_write b xs = Inr (b', cb_free b) \<and>
               cb_free b' = 0 \<and> cb_size b' = buffer_size \<and> cb_writable_ranges b' = [] \<and>
               cb_contents b' = cb_contents b @ take (cb_free b) xs)"
proof -
  from cb_reachable_wf [OF assms(1)] have wf: "cb_wf b" and e: "cb_end b = buffer_size + 1"
    by simp_all
  from cb_write_ok [OF wf, of xs] assms(2) obtain b' where
    w: "cb_write b xs = Inr (b', cb_free b)" and wf': "cb_wf b'" and e': "cb_end b' = cb_end b"
    and c: "cb_contents b' = cb_contents b @ take (cb_free b) xs"
    by (auto simp add: min_def)
  have "length (cb_contents b') = cb_size b + cb_free b"
    using c assms(2) cb_length_contents [OF wf] by simp
  then have sz: "cb_size b' = cb_size b + cb_free b"
    using cb_length_contents [OF wf'] by simp
  with cb_size_free [OF wf] cb_size_free [OF wf'] e e'
  have full: "cb_free b' = 0" and sz': "cb_size b' = buffer_size" by simp_all
  from full cb_writable_nonempty [OF wf'] have "cb_writable_ranges b' = []" by simp
  with w full sz' c cb_writable_total [OF wf] show ?thesis by simp
qed

theorem cb_short_write_witness:
  "cb_run (cb_new 7 (\<lambda>_. CHR ''.'')) [CbWrite ''ABCDEF'', CbRead ''xxxx''] =
     Inr \<lparr>cb_data = ''ABCDEF..'', cb_read_pointer = 4, cb_write_pointer = 6\<rparr> \<and>
   cb_free \<lparr>cb_data = ''ABCDEF..'', cb_read_pointer = 4, cb_write_pointer = 6\<rparr> = 5 \<and>
   cb_write \<lparr>cb_data = ''ABCDEF..'', cb_read_pointer = 4, cb_write_pointer = 6\<rparr> ''GHIJKLMN'' =
     Inr (\<lparr>cb_data = ''IJKDEFGH'', cb_read_pointer = 4, cb_write_pointer = 3\<rparr>, 5) \<and>
   cb_contents \<lparr>cb_data = ''IJKDEFGH'', cb_read_pointer = 4, cb_write_pointer = 3\<rparr> =
     ''EFGHIJK''"
proof -
  have run: "cb_run (cb_new 7 (\<lambda>_. CHR ''.'')) [CbWrite ''ABCDEF'', CbRead ''xxxx''] =
     Inr \<lparr>cb_data = ''ABCDEF..'', cb_read_pointer = 4, cb_write_pointer = 6\<rparr>"
    by code_simp
  have fr: "cb_free \<lparr>cb_data = ''ABCDEF..'', cb_read_pointer = 4, cb_write_pointer = 6\<rparr> = 5"
    by code_simp
  have c: "cb_contents \<lparr>cb_data = ''ABCDEF..'', cb_read_pointer = 4, cb_write_pointer = 6\<rparr>
      = ''EF''"
    by code_simp
  have w: "cb_write \<lparr>cb_data = ''ABCDEF..'', cb_read_pointer = 4, cb_write_pointer = 6\<rparr>
      ''GHIJKLMN'' =
     Inr (\<lparr>cb_data = ''IJKDEFGH'', cb_read_pointer = 4, cb_write_pointer = 3\<rparr>, 5)"
    by code_simp
  have "length ''GHIJKLMN'' >
      cb_free \<lparr>cb_data = ''ABCDEF..'', cb_read_pointer = 4, cb_write_pointer = 6\<rparr>"
    unfolding fr by simp
  from cb_short_write [OF run this] run fr w c show ?thesis by simp
qed

text \<open>
  C9. In every state reached from a fresh ring buffer, \<open>commit(n)\<close> with \<open>n\<close> at most the
  total size of the writable ranges returns \<open>n\<close>; the write pointer advances by \<open>n\<close>
  modulo the size of the storage, going round its end at most once; the read pointer and
  the storage are unchanged; and the unread units become the former unread units followed
  by the first \<open>n\<close> units that the writable ranges cover.
\<close>

theorem cb_commit_within_writable:
  assumes "cb_run (cb_new buffer_size junk) ops = Inr b"
    and "n \<le> total_size (cb_writable_ranges b)"
  shows "\<exists>b'. cb_commit b n = Inr (b', n) \<and>
           cb_write_pointer b' = (cb_write_pointer b + n) mod cb_end b \<and>
           cb_write_pointer b + n < 2 * cb_end b \<and>
           cb_read_pointer b' = cb_read_pointer b \<and> cb_data b' = cb_data b \<and>
           cb_contents b' =
             cb_contents b @ take n (ranges_get (cb_data b) (cb_writable_ranges b)) \<and>
           cb_size b' = cb_size b + n"
proof -
  from cb_reachable_wf [OF assms(1)] have wf: "cb_wf b" by simp
  from assms(2) cb_writable_total [OF wf] have "n \<le> cb_free b" by simp
  from cb_commit_ok [OF wf this] show ?thesis .
qed

theorem cb_commit_within_writable_witness:
  "cb_run (cb_new 7 (\<lambda>_. CHR ''.'')) [CbWrite ''ABCDEF'', CbRead ''xxxx''] =
     Inr \<lparr>cb_data = ''ABCDEF..'', cb_read_pointer = 4, cb_write_pointer = 6\<rparr> \<and>
   cb_writable_ranges \<lparr>cb_data = ''ABCDEF..'', cb_read_pointer = 4, cb_write_pointer = 6\<rparr> =
     [(6, 2), (0, 3)] \<and>
   cb_commit \<lparr>cb_data = ''ABCDEF..'', cb_read_pointer = 4, cb_write_pointer = 6\<rparr> 4 =
     Inr (\<lparr>cb_data = ''ABCDEF..'', cb_read_pointer = 4, cb_write_pointer = 2\<rparr>, 4) \<and>
   cb_contents \<lparr>cb_data = ''ABCDEF..'', cb_read_pointer = 4, cb_write_pointer = 2\<rparr> =
     ''EF..AB''"
proof -
  have run: "cb_run (cb_new 7 (\<lambda>_. CHR ''.'')) [CbWrite ''ABCDEF'', CbRead ''xxxx''] =
     Inr \<lparr>cb_data = ''ABCDEF..'', cb_read_pointer = 4, cb_write_pointer = 6\<rparr>"
    by code_simp
  have wr: "cb_writable_ranges
      \<lparr>cb_data = ''ABCDEF..'', cb_read_pointer = 4, cb_write_pointer = 6\<rparr> = [(6, 2), (0, 3)]"
    by code_simp
  have c: "cb_contents \<lparr>cb_data = ''ABCDEF..'', cb_read_pointer = 4, cb_write_pointer = 6\<rparr>
      = ''EF''"
    by code_simp
  have ce: "cb_commit \<lparr>cb_data = ''ABCDEF..'', cb_read_pointer = 4, cb_write_pointer = 6\<rparr> 4 =
     Inr (\<lparr>cb_data = ''ABCDEF..'', cb_read_pointer = 4, cb_write_pointer = 2\<rparr>, 4)"
    by code_simp
  have g: "''EF'' @ take 4 (ranges_get ''ABCDEF..'' [(6, 2), (0, 3)]) = ''EF..AB''"
    by code_simp
  have "(4::nat) \<le> total_size (cb_writable_ranges
      \<lparr>cb_data = ''ABCDEF..'', cb_read_pointer = 4, cb_write_pointer = 6\<rparr>)"
    unfolding wr by (simp add: total_size_def span_size_def)
  from cb_commit_within_writable [OF run this] obtain b' where
    b': "cb_commit \<lparr>cb_data = ''ABCDEF..'', cb_read_pointer = 4, cb_write_pointer = 6\<rparr> 4
       = Inr (b', 4)"
    and cb': "cb_contents b' =
      cb_contents \<lparr>cb_data = ''ABCDEF..'', cb_read_pointer = 4, cb_write_pointer = 6\<rparr> @
      take 4 (ranges_get
        (cb_data \<lparr>cb_data = ''ABCDEF..'', cb_read_pointer = 4, cb_write_pointer = 6\<rparr>)
        (cb_writable_ranges
          \<lparr>cb_data = ''ABCDEF..'', cb_read_pointer = 4, cb_write_pointer = 6\<rparr>))"
    by blast
  from b' ce have eq: "b' = \<lparr>cb_data = ''ABCDEF..'', cb_read_pointer = 4, cb_write_pointer = 2\<rparr>"
    by simp
  have "cb_contents \<lparr>cb_data = ''ABCDEF..'', cb_read_pointer = 4, cb_write_pointer = 2\<rparr> =
     ''EF..AB''"
    using cb' unfolding eq wr c by (simp only: circular_buffer.simps g)
  with run wr ce show ?thesis by simp
qed


section \<open>The claims about dynamic\_buffer and about both buffers\<close>

text \<open>
  C2. For every state the segmented buffer reaches from a new buffer (with a segment
  capacity above zero) and every source, \<open>write\<close> returns, without an abort, the length of
  the source, and the unread units become the former unread units followed by the whole
  source. This holds in particular for a source of \<open>k * extent_size + 1\<close> units.
\<close>

theorem db_write_never_short:
  assumes "0 < extent_size" and "db_run extent_size z db_new ops = Some (Inr s)"
  shows "(\<exists>s'. db_write extent_size z s xs = Some (Inr (s', length xs)) \<and>
              db_contents s' = db_contents s @ xs \<and>
              db_size s' = db_size s + length xs) \<and>
         (\<forall>k ys. length ys = k * extent_size + 1 \<longrightarrow>
            (\<exists>s'. db_write extent_size z s ys = Some (Inr (s', k * extent_size + 1)) \<and>
                  db_contents s' = db_contents s @ ys))"
proof -
  from db_reachable_inv [OF assms] have inv: "db_inv extent_size s" .
  have gen: "\<exists>s'. db_write extent_size z s us = Some (Inr (s', length us)) \<and>
      db_inv extent_size s' \<and> db_contents s' = db_contents s @ us" for us
    by (rule db_write_ok [OF inv])
  from gen [of xs] obtain s' where
    w: "db_write extent_size z s xs = Some (Inr (s', length xs))"
    and i: "db_inv extent_size s'" and c: "db_contents s' = db_contents s @ xs"
    by blast
  have "db_size s' = db_size s + length xs"
    using db_length_contents [OF i] db_length_contents [OF inv] c by simp
  with w c have first: "\<exists>s'. db_write extent_size z s xs = Some (Inr (s', length xs)) \<and>
      db_contents s' = db_contents s @ xs \<and> db_size s' = db_size s + length xs"
    by blast
  have "\<exists>s'. db_write extent_size z s ys = Some (Inr (s', k * extent_size + 1)) \<and>
      db_contents s' = db_contents s @ ys" if "length ys = k * extent_size + 1" for k ys
    using gen [of ys] that by auto
  with first show ?thesis by blast
qed

theorem db_write_never_short_witness:
  "db_run 4 (CHR ''.'') db_new [DbWrite ''abc''] =
     Some (Inr \<lparr>db_extents = [\<lparr>fb_data = ''abc.'', fb_read_pos = 0, fb_write_pos = 3\<rparr>,
                   \<lparr>fb_data = ''....'', fb_read_pos = 0, fb_write_pos = 0\<rparr>],
                 db_write_pointer = 0\<rparr>) \<and>
   db_write 4 (CHR ''.'')
     \<lparr>db_extents = [\<lparr>fb_data = ''abc.'', fb_read_pos = 0, fb_write_pos = 3\<rparr>,
                    \<lparr>fb_data = ''....'', fb_read_pos = 0, fb_write_pos = 0\<rparr>],
      db_write_pointer = 0\<rparr> ''defghijkl'' =
     Some (Inr (\<lparr>db_extents = [\<lparr>fb_data = ''abcd'', fb_read_pos = 0, fb_write_pos = 4\<rparr>,
                   \<lparr>fb_data = ''efgh'', fb_read_pos = 0, fb_write_pos = 4\<rparr>,
                   \<lparr>fb_data = ''ijkl'', fb_read_pos = 0, fb_write_pos = 4\<rparr>,
                   \<lparr>fb_data = ''....'', fb_read_pos = 0, fb_write_pos = 0\<rparr>],
                 db_write_pointer = 3\<rparr>, 2 * 4 + 1))"
proof -
  have run: "db_run 4 (CHR ''.'') db_new [DbWrite ''abc''] =
     Some (Inr \<lparr>db_extents = [\<lparr>fb_data = ''abc.'', fb_read_pos = 0, fb_write_pos = 3\<rparr>,
                   \<lparr>fb_data = ''....'', fb_read_pos = 0, fb_write_pos = 0\<rparr>],
                 db_write_pointer = 0\<rparr>)"
    by code_simp
  have w: "db_write 4 (CHR ''.'')
     \<lparr>db_extents = [\<lparr>fb_data = ''abc.'', fb_read_pos = 0, fb_write_pos = 3\<rparr>,
                    \<lparr>fb_data = ''....'', fb_read_pos = 0, fb_write_pos = 0\<rparr>],
      db_write_pointer = 0\<rparr> ''defghijkl'' =
     Some (Inr (\<lparr>db_extents = [\<lparr>fb_data = ''abcd'', fb_read_pos = 0, fb_write_pos = 4\<rparr>,
                   \<lparr>fb_data = ''efgh'', fb_read_pos = 0, fb_write_pos = 4\<rparr>,
                   \<lparr>fb_data = ''ijkl'', fb_read_pos = 0, fb_write_pos = 4\<rparr>,
                   \<lparr>fb_data = ''....'', fb_read_pos = 0, fb_write_pos = 0\<rparr>],
                 db_write_pointer = 3\<rparr>, 9))"
    by code_simp
  have "(0::nat) < 4" by simp
  from db_write_never_short [OF this run, of "''defghijkl''"] obtain s' where
    "db_write 4 (CHR ''.'')
     \<lparr>db_extents = [\<lparr>fb_data = ''abc.'', fb_read_pos = 0, fb_write_pos = 3\<rparr>,
                    \<lparr>fb_data = ''....'', fb_read_pos = 0, fb_write_pos = 0\<rparr>],
      db_write_pointer = 0\<rparr> ''defghijkl'' = Some (Inr (s', length ''defghijkl''))"
    by blast
  with w run show ?thesis by simp
qed

text \<open>
  C10. In every state the segmented buffer reaches from a new buffer (with a segment
  capacity above zero), if the front segment has no unread units then no segment has any. Consequently \<open>read\<close> and
  \<open>discard\<close>, which stop at a front segment without unread units, leave nothing behind
  in a later segment: \<open>read\<close> returns the first \<open>min (length buf) (db_size s)\<close> unread
  units of the whole buffer and \<open>discard\<close> removes \<open>min n (db_size s)\<close> units, where
  \<open>db_size\<close> counts the unread units of all segments.
\<close>

theorem db_front_empty_all_empty:
  assumes "0 < extent_size" and "db_run extent_size z db_new ops = Some (Inr s)"
  shows "(db_extents s \<noteq> [] \<longrightarrow> span_size (read_window (hd (db_extents s))) = 0 \<longrightarrow>
            (\<forall>e \<in> set (db_extents s). span_size (read_window e) = 0)) \<and>
         (\<exists>s'. db_read s buf =
            Some (Inr (s', take (length buf) (db_contents s) @ drop (db_size s) buf,
                       min (length buf) (db_size s)))) \<and>
         (\<exists>s'. db_discard s n = Some (Inr (s', min n (db_size s))))"
proof -
  from db_reachable_inv [OF assms] have inv: "db_inv extent_size s" .
  obtain exts wp where s: "s = \<lparr>db_extents = exts, db_write_pointer = wp\<rparr>"
    by (cases s) simp
  have "\<forall>e \<in> set exts. span_size (read_window e) = 0"
    if "exts \<noteq> []" and "span_size (read_window (hd exts)) = 0"
  proof -
    from that(1) obtain front rest where e: "exts = front # rest" by (cases exts) auto
    from inv have "db_inv extent_size \<lparr>db_extents = front # rest, db_write_pointer = wp\<rparr>"
      unfolding s e .
    from db_front_empty [OF this] that(2) show ?thesis unfolding e by simp
  qed
  then have first: "db_extents s \<noteq> [] \<longrightarrow> span_size (read_window (hd (db_extents s))) = 0 \<longrightarrow>
      (\<forall>e \<in> set (db_extents s). span_size (read_window e) = 0)"
    unfolding s by simp
  from db_read_ok [OF inv, of buf] db_discard_ok [OF inv, of n] first show ?thesis
    unfolding db_length_contents [OF inv] by blast
qed

theorem db_front_empty_all_empty_witness:
  "db_run 4 (CHR ''.'') db_new [DbWrite ''abcdef'', DbRead ''xxxx''] =
     Some (Inr \<lparr>db_extents = [\<lparr>fb_data = ''ef..'', fb_read_pos = 0, fb_write_pos = 2\<rparr>],
                 db_write_pointer = 0\<rparr>) \<and>
   db_run 4 (CHR ''.'') db_new [DbWrite ''abc'', DbRead ''xxxxxxxx''] =
     Some (Inr \<lparr>db_extents = [\<lparr>fb_data = ''abc.'', fb_read_pos = 3, fb_write_pos = 3\<rparr>,
                   \<lparr>fb_data = ''....'', fb_read_pos = 0, fb_write_pos = 0\<rparr>],
                 db_write_pointer = 0\<rparr>) \<and>
   span_size (read_window \<lparr>fb_data = ''abc.'', fb_read_pos = 3, fb_write_pos = 3\<rparr>) = 0 \<and>
   span_size (read_window \<lparr>fb_data = ''....'', fb_read_pos = 0, fb_write_pos = 0\<rparr>) = 0"
proof -
  have run1: "db_run 4 (CHR ''.'') db_new [DbWrite ''abcdef'', DbRead ''xxxx''] =
     Some (Inr \<lparr>db_extents = [\<lparr>fb_data = ''ef..'', fb_read_pos = 0, fb_write_pos = 2\<rparr>],
                 db_write_pointer = 0\<rparr>)"
    by code_simp
  have run: "db_run 4 (CHR ''.'') db_new [DbWrite ''abc'', DbRead ''xxxxxxxx''] =
     Some (Inr \<lparr>db_extents = [\<lparr>fb_data = ''abc.'', fb_read_pos = 3, fb_write_pos = 3\<rparr>,
                   \<lparr>fb_data = ''....'', fb_read_pos = 0, fb_write_pos = 0\<rparr>],
                 db_write_pointer = 0\<rparr>)"
    by code_simp
  have front: "span_size (read_window \<lparr>fb_data = ''abc.'', fb_read_pos = 3, fb_write_pos = 3\<rparr>) = 0"
    by code_simp
  have "(0::nat) < 4" by simp
  from db_front_empty_all_empty [OF this run, of "[]" 0] front
  have "\<forall>e \<in> set [\<lparr>fb_data = ''abc.'', fb_read_pos = 3, fb_write_pos = 3\<rparr>,
      \<lparr>fb_data = ''....'', fb_read_pos = 0, fb_write_pos = 0\<rparr>]. span_size (read_window e) = 0"
    by simp
  with run1 run show ?thesis by simp
qed

text \<open>
  C8. For both buffers (the segmented one with a segment capacity above zero), in every
  state reached from a new buffer and for every \<open>n\<close>,
  \<open>discard(n)\<close> returns \<open>min n\<close> of the number of unread units and removes that many
  units from the front of the unread contents. When no unit is unread (a new buffer, or
  one read to the end), \<open>read\<close> and \<open>discard\<close> return 0 and leave the buffer as it is,
  and \<open>readable_ranges\<close> is the empty sequence; none of them aborts.
\<close>

theorem discard_min_and_empty_buffer:
  assumes "cb_run (cb_new buffer_size junk) ops = Inr b"
    and "0 < extent_size" and "db_run extent_size z db_new dops = Some (Inr s)"
  shows "(\<exists>b'. cb_discard b n = Inr (b', min n (cb_size b)) \<and>
              cb_contents b' = drop n (cb_contents b)) \<and>
         (cb_size b = 0 \<longrightarrow>
            cb_read b buf = Inr (b, buf, 0) \<and> cb_discard b n = Inr (b, 0) \<and>
            cb_readable_ranges b = Inr []) \<and>
         (\<exists>s'. db_discard s n = Some (Inr (s', min n (db_size s))) \<and>
              db_contents s' = drop n (db_contents s)) \<and>
         (db_size s = 0 \<longrightarrow>
            db_read s dbuf = Some (Inr (s, dbuf, 0)) \<and> db_discard s n = Some (Inr (s, 0)) \<and>
            db_readable_ranges s = []) \<and>
         length (cb_contents b) = cb_size b \<and> length (db_contents s) = db_size s"
proof -
  from cb_reachable_wf [OF assms(1)] have wf: "cb_wf b" by simp
  from db_reachable_inv [OF assms(2,3)] have inv: "db_inv extent_size s" .
  from cb_discard_ok [OF wf, of n]
  have r1: "\<exists>b'. cb_discard b n = Inr (b', min n (cb_size b)) \<and>
      cb_contents b' = drop n (cb_contents b)"
    by blast
  have r2: "cb_size b = 0 \<longrightarrow>
      cb_read b buf = Inr (b, buf, 0) \<and> cb_discard b n = Inr (b, 0) \<and>
      cb_readable_ranges b = Inr []"
    using cb_empty_ops [OF wf] by blast
  from db_discard_ok [OF inv, of n]
  have d1: "\<exists>s'. db_discard s n = Some (Inr (s', min n (db_size s))) \<and>
      db_contents s' = drop n (db_contents s)"
    unfolding db_length_contents [OF inv] by blast
  have d2: "db_size s = 0 \<longrightarrow>
      db_read s dbuf = Some (Inr (s, dbuf, 0)) \<and> db_discard s n = Some (Inr (s, 0)) \<and>
      db_readable_ranges s = []"
    using db_empty_ops by blast
  from r1 r2 d1 d2 cb_length_contents [OF wf] db_length_contents [OF inv] show ?thesis
    by blast
qed

theorem discard_min_and_empty_buffer_witness:
  "cb_run (cb_new 7 (\<lambda>_. CHR ''.'')) [CbWrite ''ABC'', CbRead ''xxxxx''] =
     Inr \<lparr>cb_data = ''ABC.....'', cb_read_pointer = 3, cb_write_pointer = 3\<rparr> \<and>
   db_run 4 (CHR ''.'') db_new [DbWrite ''abc'', DbRead ''xxxxxxxx''] =
     Some (Inr \<lparr>db_extents = [\<lparr>fb_data = ''abc.'', fb_read_pos = 3, fb_write_pos = 3\<rparr>,
                   \<lparr>fb_data = ''....'', fb_read_pos = 0, fb_write_pos = 0\<rparr>],
                 db_write_pointer = 0\<rparr>) \<and>
   cb_discard \<lparr>cb_data = ''ABC.....'', cb_read_pointer = 3, cb_write_pointer = 3\<rparr> 5 =
     Inr (\<lparr>cb_data = ''ABC.....'', cb_read_pointer = 3, cb_write_pointer = 3\<rparr>, 0) \<and>
   db_discard \<lparr>db_extents = [\<lparr>fb_data = ''abc.'', fb_read_pos = 3, fb_write_pos = 3\<rparr>,
                   \<lparr>fb_data = ''....'', fb_read_pos = 0, fb_write_pos = 0\<rparr>],
                 db_write_pointer = 0\<rparr> 5 =
     Some (Inr (\<lparr>db_extents = [\<lparr>fb_data = ''abc.'', fb_read_pos = 3, fb_write_pos = 3\<rparr>,
                   \<lparr>fb_data = ''....'', fb_read_pos = 0, fb_write_pos = 0\<rparr>],
                 db_write_pointer = 0\<rparr>, 0))"
proof -
  have crun: "cb_run (cb_new 7 (\<lambda>_. CHR ''.'')) [CbWrite ''ABC'', CbRead ''xxxxx''] =
     Inr \<lparr>cb_data = ''ABC.....'', cb_read_pointer = 3, cb_write_pointer = 3\<rparr>"
    by code_simp
  have drun: "db_run 4 (CHR ''.'') db_new [DbWrite ''abc'', DbRead ''xxxxxxxx''] =
     Some (Inr \<lparr>db_extents = [\<lparr>fb_data = ''abc.'', fb_read_pos = 3, fb_write_pos = 3\<rparr>,
                   \<lparr>fb_data = ''....'', fb_read_pos = 0, fb_write_pos = 0\<rparr>],
                 db_write_pointer = 0\<rparr>)"
    by code_simp
  have cs: "cb_size \<lparr>cb_data = ''ABC.....'', cb_read_pointer = 3, cb_write_pointer = 3\<rparr> = 0"
    by code_simp
  have ds: "db_size \<lparr>db_extents = [\<lparr>fb_data = ''abc.'', fb_read_pos = 3, fb_write_pos = 3\<rparr>,
                   \<lparr>fb_data = ''....'', fb_read_pos = 0, fb_write_pos = 0\<rparr>],
                 db_write_pointer = 0\<rparr> = 0"
    by code_simp
  have "(0::nat) < 4" by simp
  from discard_min_and_empty_buffer [OF crun this drun, of 5 "[]" "[]"] cs ds crun drun
  show ?thesis by simp
qed

text \<open>
  C1. For both buffers (the segmented one with a segment capacity above zero): in a state
  reached from a new buffer in which no unit is unread (a new buffer among them), writing a sequence (for the ring buffer, of at most
  \<open>buffer_size\<close> units) is accepted in full, and reading into a destination of the same
  length then returns exactly that sequence, in order.
\<close>

theorem write_read_round_trip:
  assumes "cb_run (cb_new buffer_size junk) ops = Inr b" and "cb_size b = 0"
    and "length xs \<le> buffer_size" and "length buf = length xs"
    and "0 < extent_size" and "db_run extent_size z db_new dops = Some (Inr s)"
    and "db_size s = 0" and "length dbuf = length ys"
  shows "(\<exists>b1 b2. cb_write b xs = Inr (b1, length xs) \<and>
                 cb_read b1 buf = Inr (b2, xs, length xs)) \<and>
         (\<exists>s1 s2. db_write extent_size z s ys = Some (Inr (s1, length ys)) \<and>
                 db_read s1 dbuf = Some (Inr (s2, ys, length ys)))"
proof -
  from cb_reachable_wf [OF assms(1)] have wf: "cb_wf b" and e: "cb_end b = buffer_size + 1"
    by simp_all
  from cb_size_free [OF wf] e assms(2) have free: "cb_free b = buffer_size" by simp
  from cb_length_contents [OF wf] assms(2) have c0: "cb_contents b = []" by simp
  from cb_write_ok [OF wf, of xs] obtain b1 where
    w: "cb_write b xs = Inr (b1, min (length xs) (cb_free b))" and wf1: "cb_wf b1"
    and c1: "cb_contents b1 = cb_contents b @ take (cb_free b) xs"
    by blast
  from c1 c0 free assms(3) have c1': "cb_contents b1 = xs" by simp
  with cb_length_contents [OF wf1] have sz1: "cb_size b1 = length xs" by simp
  from cb_read_ok [OF wf1, of buf] obtain b2 where
    "cb_read b1 buf = Inr (b2, take (length buf) (cb_contents b1) @ drop (cb_size b1) buf,
        min (length buf) (cb_size b1))"
    by blast
  then have r: "cb_read b1 buf = Inr (b2, xs, length xs)"
    unfolding c1' sz1 using assms(4) by simp
  from w free assms(3) have w': "cb_write b xs = Inr (b1, length xs)" by simp
  from db_reachable_inv [OF assms(5,6)] have inv: "db_inv extent_size s" .
  from db_length_contents [OF inv] assms(7) have d0: "db_contents s = []" by simp
  from db_write_ok [OF inv, of z ys] obtain s1 where
    dw: "db_write extent_size z s ys = Some (Inr (s1, length ys))"
    and inv1: "db_inv extent_size s1" and d1: "db_contents s1 = db_contents s @ ys"
    by blast
  from d1 d0 have d1': "db_contents s1 = ys" by simp
  from db_read_ok [OF inv1, of dbuf] obtain s2 where
    "db_read s1 dbuf = Some (Inr (s2, take (length dbuf) (db_contents s1) @
        drop (length (db_contents s1)) dbuf, min (length dbuf) (length (db_contents s1))))"
    by blast
  then have dr: "db_read s1 dbuf = Some (Inr (s2, ys, length ys))"
    unfolding d1' using assms(8) by simp
  from w' r dw dr show ?thesis by blast
qed

theorem write_read_round_trip_witness:
  "cb_run (cb_new 7 (\<lambda>_. CHR ''.'')) [] = Inr (cb_new 7 (\<lambda>_. CHR ''.'')) \<and>
   cb_write (cb_new 7 (\<lambda>_. CHR ''.'')) ''ABCDEFG'' =
     Inr (\<lparr>cb_data = ''ABCDEFG.'', cb_read_pointer = 0, cb_write_pointer = 7\<rparr>, 7) \<and>
   cb_read \<lparr>cb_data = ''ABCDEFG.'', cb_read_pointer = 0, cb_write_pointer = 7\<rparr> ''xxxxxxx'' =
     Inr (\<lparr>cb_data = ''ABCDEFG.'', cb_read_pointer = 7, cb_write_pointer = 7\<rparr>, ''ABCDEFG'', 7) \<and>
   db_run 4 (CHR ''.'') (db_new :: char dynamic_buffer) [] = Some (Inr db_new) \<and>
   db_write 4 (CHR ''.'') db_new ''abcdefghi'' =
     Some (Inr (\<lparr>db_extents = [\<lparr>fb_data = ''abcd'', fb_read_pos = 0, fb_write_pos = 4\<rparr>,
                   \<lparr>fb_data = ''efgh'', fb_read_pos = 0, fb_write_pos = 4\<rparr>,
                   \<lparr>fb_data = ''i...'', fb_read_pos = 0, fb_write_pos = 1\<rparr>],
                 db_write_pointer = 2\<rparr>, 9)) \<and>
   db_read \<lparr>db_extents = [\<lparr>fb_data = ''abcd'', fb_read_pos = 0, fb_write_pos = 4\<rparr>,
                   \<lparr>fb_data = ''efgh'', fb_read_pos = 0, fb_write_pos = 4\<rparr>,
                   \<lparr>fb_data = ''i...'', fb_read_pos = 0, fb_write_pos = 1\<rparr>],
                 db_write_pointer = 2\<rparr> ''xxxxxxxxx'' =
     Some (Inr (\<lparr>db_extents = [\<lparr>fb_data = ''i...'', fb_read_pos = 1, fb_write_pos = 1\<rparr>],
                 db_write_pointer = 0\<rparr>, ''abcdefghi'', 9))"
proof -
  have crun: "cb_run (cb_new 7 (\<lambda>_. CHR ''.'')) [] = Inr (cb_new 7 (\<lambda>_. CHR ''.''))"
    by simp
  have drun: "db_run 4 (CHR ''.'') (db_new :: char dynamic_buffer) [] = Some (Inr db_new)"
    by simp
  have cs: "cb_size (cb_new 7 (\<lambda>_. CHR ''.'')) = 0" by code_simp
  have ds: "db_size (db_new :: char dynamic_buffer) = 0" by code_simp
  have cw: "cb_write (cb_new 7 (\<lambda>_. CHR ''.'')) ''ABCDEFG'' =
     Inr (\<lparr>cb_data = ''ABCDEFG.'', cb_read_pointer = 0, cb_write_pointer = 7\<rparr>, 7)"
    by code_simp
  have cr: "cb_read \<lparr>cb_data = ''ABCDEFG.'', cb_read_pointer = 0, cb_write_pointer = 7\<rparr>
      ''xxxxxxx'' =
     Inr (\<lparr>cb_data = ''ABCDEFG.'', cb_read_pointer = 7, cb_write_pointer = 7\<rparr>, ''ABCDEFG'', 7)"
    by code_simp
  have dw: "db_write 4 (CHR ''.'') db_new ''abcdefghi'' =
     Some (Inr (\<lparr>db_extents = [\<lparr>fb_data = ''abcd'', fb_read_pos = 0, fb_write_pos = 4\<rparr>,
                   \<lparr>fb_data = ''efgh'', fb_read_pos = 0, fb_write_pos = 4\<rparr>,
                   \<lparr>fb_data = ''i...'', fb_read_pos = 0, fb_write_pos = 1\<rparr>],
                 db_write_pointer = 2\<rparr>, 9))"
    by code_simp
  have dr: "db_read \<lparr>db_extents = [\<lparr>fb_data = ''abcd'', fb_read_pos = 0, fb_write_pos = 4\<rparr>,
                   \<lparr>fb_data = ''efgh'', fb_read_pos = 0, fb_write_pos = 4\<rparr>,
                   \<lparr>fb_data = ''i...'', fb_read_pos = 0, fb_write_pos = 1\<rparr>],
                 db_write_pointer = 2\<rparr> ''xxxxxxxxx'' =
     Some (Inr (\<lparr>db_extents = [\<lparr>fb_data = ''i...'', fb_read_pos = 1, fb_write_pos = 1\<rparr>],
                 db_write_pointer = 0\<rparr>, ''abcdefghi'', 9))"
    by code_simp
  have l1: "length ''ABCDEFG'' \<le> (7::nat)" by simp
  have l2: "length ''xxxxxxx'' = length ''ABCDEFG''" by simp
  have l3: "length ''xxxxxxxxx'' = length ''abcdefghi''" by simp
  have "(0::nat) < 4" by simp
  from write_read_round_trip [OF crun cs l1 l2 this drun ds l3] cw cr dw dr crun drun
  show ?thesis by simp
qed

text \<open>
  C5, as stated, fails: after a write of 3 units into a new buffer with segments of 4
  units, the segment at \<open>write_pointer\<close> has 1 unit of room, less than \<open>minfree = 2\<close>, and
  \<open>ensure_minfree\<close> appends nothing, because the last segment is an empty one.
\<close>

theorem db_ensure_minfree_target_counterexample:
  "db_run 4 (CHR ''.'') db_new [DbWrite ''abc''] =
     Some (Inr \<lparr>db_extents = [\<lparr>fb_data = ''abc.'', fb_read_pos = 0, fb_write_pos = 3\<rparr>,
                   \<lparr>fb_data = ''....'', fb_read_pos = 0, fb_write_pos = 0\<rparr>],
                 db_write_pointer = 0\<rparr>) \<and>
   span_size (write_window
     (db_extents \<lparr>db_extents = [\<lparr>fb_data = ''abc.'', fb_read_pos = 0, fb_write_pos = 3\<rparr>,
                   \<lparr>fb_data = ''....'', fb_read_pos = 0, fb_write_pos = 0\<rparr>],
                 db_write_pointer = 0\<rparr> !
      db_write_pointer \<lparr>db_extents = [\<lparr>fb_data = ''abc.'', fb_read_pos = 0, fb_write_pos = 3\<rparr>,
                   \<lparr>fb_data = ''....'', fb_read_pos = 0, fb_write_pos = 0\<rparr>],
                 db_write_pointer = 0\<rparr>)) < minfree 4 \<and>
   db_ensure_minfree 4 (CHR ''.'')
     \<lparr>db_extents = [\<lparr>fb_data = ''abc.'', fb_read_pos = 0, fb_write_pos = 3\<rparr>,
                   \<lparr>fb_data = ''....'', fb_read_pos = 0, fb_write_pos = 0\<rparr>],
                 db_write_pointer = 0\<rparr> =
     Inr \<lparr>db_extents = [\<lparr>fb_data = ''abc.'', fb_read_pos = 0, fb_write_pos = 3\<rparr>,
                   \<lparr>fb_data = ''....'', fb_read_pos = 0, fb_write_pos = 0\<rparr>],
                 db_write_pointer = 0\<rparr>"
  by code_simp

text \<open>
  C5, amended. \<open>minfree\<close> is half the segment capacity. With a segment capacity above
  zero, in every state where
  \<open>write_pointer\<close> designates a segment, or there is no segment and it is 0,
  \<open>ensure_minfree\<close> appends a new empty segment exactly when there is no segment or the
  last segment has less than \<open>minfree\<close> writable units left; and when it appends, it
  advances \<open>write_pointer\<close> by one if the segment at \<open>write_pointer\<close> has no writable
  unit left, and leaves it as it is otherwise.
\<close>

theorem db_ensure_minfree_appends:
  assumes "0 < extent_size"
    and "db_extents s = [] \<and> db_write_pointer s = 0 \<or>
         db_write_pointer s < length (db_extents s)"
  shows "minfree extent_size = extent_size div 2 \<and>
         (\<exists>s'. db_ensure_minfree extent_size z s = Inr s' \<and>
            (if db_extents s = [] \<or>
                span_size (write_window (last (db_extents s))) < minfree extent_size
             then db_extents s' = db_extents s @ [fb_new extent_size z] \<and>
                  db_write_pointer s' =
                    (if db_extents s \<noteq> [] \<and>
                        span_size (write_window (db_extents s ! db_write_pointer s)) = 0
                     then db_write_pointer s + 1 else db_write_pointer s)
             else db_extents s' = db_extents s))"
proof (cases "db_extents s = []")
  case True
  with assms show ?thesis
    by (simp add: db_ensure_minfree_def emplace_back_def Let_def fb_new_write_size minfree_def)
next
  case False
  with assms(2) have wp: "db_write_pointer s < length (db_extents s)" by simp
  then have "(db_extents s @ [fb_new extent_size z]) ! db_write_pointer s =
      db_extents s ! db_write_pointer s"
    by (simp add: nth_append)
  with False wp show ?thesis
    by (simp add: db_ensure_minfree_def emplace_back_def Let_def minfree_def)
qed

theorem db_ensure_minfree_appends_witness:
  "db_ensure_minfree 4 (CHR ''.'')
     \<lparr>db_extents = [\<lparr>fb_data = ''abcd'', fb_read_pos = 0, fb_write_pos = 4\<rparr>],
      db_write_pointer = 0\<rparr> =
     Inr \<lparr>db_extents = [\<lparr>fb_data = ''abcd'', fb_read_pos = 0, fb_write_pos = 4\<rparr>,
                         \<lparr>fb_data = ''....'', fb_read_pos = 0, fb_write_pos = 0\<rparr>],
          db_write_pointer = 1\<rparr> \<and>
   db_ensure_minfree 4 (CHR ''.'')
     \<lparr>db_extents = [\<lparr>fb_data = ''abc.'', fb_read_pos = 0, fb_write_pos = 3\<rparr>],
      db_write_pointer = 0\<rparr> =
     Inr \<lparr>db_extents = [\<lparr>fb_data = ''abc.'', fb_read_pos = 0, fb_write_pos = 3\<rparr>,
                         \<lparr>fb_data = ''....'', fb_read_pos = 0, fb_write_pos = 0\<rparr>],
          db_write_pointer = 0\<rparr> \<and>
   db_ensure_minfree 4 (CHR ''.'')
     \<lparr>db_extents = [\<lparr>fb_data = ''ab..'', fb_read_pos = 0, fb_write_pos = 2\<rparr>],
      db_write_pointer = 0\<rparr> =
     Inr \<lparr>db_extents = [\<lparr>fb_data = ''ab..'', fb_read_pos = 0, fb_write_pos = 2\<rparr>],
          db_write_pointer = 0\<rparr>"
proof -
  have e1: "db_ensure_minfree 4 (CHR ''.'')
     \<lparr>db_extents = [\<lparr>fb_data = ''abcd'', fb_read_pos = 0, fb_write_pos = 4\<rparr>],
      db_write_pointer = 0\<rparr> =
     Inr \<lparr>db_extents = [\<lparr>fb_data = ''abcd'', fb_read_pos = 0, fb_write_pos = 4\<rparr>,
                         \<lparr>fb_data = ''....'', fb_read_pos = 0, fb_write_pos = 0\<rparr>],
          db_write_pointer = 1\<rparr>"
    by code_simp
  have e2: "db_ensure_minfree 4 (CHR ''.'')
     \<lparr>db_extents = [\<lparr>fb_data = ''abc.'', fb_read_pos = 0, fb_write_pos = 3\<rparr>],
      db_write_pointer = 0\<rparr> =
     Inr \<lparr>db_extents = [\<lparr>fb_data = ''abc.'', fb_read_pos = 0, fb_write_pos = 3\<rparr>,
                         \<lparr>fb_data = ''....'', fb_read_pos = 0, fb_write_pos = 0\<rparr>],
          db_write_pointer = 0\<rparr>"
    by code_simp
  have e3: "db_ensure_minfree 4 (CHR ''.'')
     \<lparr>db_extents = [\<lparr>fb_data = ''ab..'', fb_read_pos = 0, fb_write_pos = 2\<rparr>],
      db_write_pointer = 0\<rparr> =
     Inr \<lparr>db_extents = [\<lparr>fb_data = ''ab..'', fb_read_pos = 0, fb_write_pos = 2\<rparr>],
          db_write_pointer = 0\<rparr>"
    by code_simp
  have pos: "(0::nat) < 4" by simp
  have ptr: "db_extents \<lparr>db_extents = [\<lparr>fb_data = ''abcd'', fb_read_pos = 0, fb_write_pos = 4\<rparr>],
        db_write_pointer = 0\<rparr> = [] \<and>
      db_write_pointer \<lparr>db_extents = [\<lparr>fb_data = ''abcd'', fb_read_pos = 0, fb_write_pos = 4\<rparr>],
        db_write_pointer = 0\<rparr> = 0 \<or>
      db_write_pointer \<lparr>db_extents = [\<lparr>fb_data = ''abcd'', fb_read_pos = 0, fb_write_pos = 4\<rparr>],
        db_write_pointer = 0\<rparr>
      < length (db_extents \<lparr>db_extents = [\<lparr>fb_data = ''abcd'', fb_read_pos = 0, fb_write_pos = 4\<rparr>],
        db_write_pointer = 0\<rparr>)"
    by simp
  from db_ensure_minfree_appends [OF pos ptr, of "CHR ''.''"] obtain s' where
    "db_ensure_minfree 4 (CHR ''.'')
     \<lparr>db_extents = [\<lparr>fb_data = ''abcd'', fb_read_pos = 0, fb_write_pos = 4\<rparr>],
      db_write_pointer = 0\<rparr> = Inr s'"
    by blast
  with e1 e2 e3 show ?thesis by simp
qed

text \<open>
  C6, as stated, fails: \<open>commit(0)\<close> on a new buffer returns 0 at once and leaves the
  buffer without any segment.
\<close>

theorem db_commit_zero_counterexample:
  "db_commit 4 (CHR ''.'') db_new 0 = Inr (db_new, 0) \<and>
   db_extents (db_new :: char dynamic_buffer) = []"
  by code_simp

text \<open>
  C6, amended. In every state reached from a new buffer (with a segment capacity above
  zero): \<open>commit(0)\<close> returns 0 and
  leaves the buffer as it is. Whenever \<open>commit(n)\<close> with \<open>n > 0\<close> returns, it returns \<open>n\<close>,
  and whenever \<open>writable_ranges\<close> returns, its state is the one \<open>ensure_minfree\<close> gives;
  in both cases the buffer has a segment, its last segment has at least \<open>minfree\<close> writable
  units left, and a further \<open>ensure_minfree\<close> changes nothing. The ranges that
  \<open>writable_ranges\<close> returns are not empty and hold at least \<open>minfree\<close> units in total.
\<close>

theorem db_commit_writable_ensure_minfree:
  assumes "0 < extent_size" and "db_run extent_size z db_new ops = Some (Inr s)"
  shows "db_commit extent_size z s 0 = Inr (s, 0) \<and>
         (\<forall>n s' m. 0 < n \<longrightarrow> db_commit extent_size z s n = Inr (s', m) \<longrightarrow>
            m = n \<and> db_extents s' \<noteq> [] \<and>
            minfree extent_size \<le> span_size (write_window (last (db_extents s'))) \<and>
            db_ensure_minfree extent_size z s' = Inr s') \<and>
         (\<forall>s' rs. db_writable_ranges extent_size z s = Inr (s', rs) \<longrightarrow>
            db_ensure_minfree extent_size z s = Inr s' \<and> db_extents s' \<noteq> [] \<and>
            minfree extent_size \<le> span_size (write_window (last (db_extents s'))) \<and>
            db_ensure_minfree extent_size z s' = Inr s' \<and>
            rs \<noteq> [] \<and> (\<forall>r \<in> set rs. 0 < span_size (snd r)) \<and>
            minfree extent_size \<le> sum_list (map (\<lambda>r. span_size (snd r)) rs))"
proof -
  from db_reachable_inv [OF assms] have inv: "db_inv extent_size s" .
  have idem: "db_ensure_minfree extent_size z t = Inr t"
    if "db_extents t \<noteq> []"
      and "minfree extent_size \<le> span_size (write_window (last (db_extents t)))" for t
    using that by (simp add: db_ensure_minfree_def)
  have zero: "db_commit extent_size z s 0 = Inr (s, 0)" by (simp add: db_commit_def)
  have com: "m = n \<and> db_extents s' \<noteq> [] \<and>
      minfree extent_size \<le> span_size (write_window (last (db_extents s'))) \<and>
      db_ensure_minfree extent_size z s' = Inr s'"
    if "0 < n" and "db_commit extent_size z s n = Inr (s', m)" for n s' m
    using db_commit_ok [OF inv that(2)] that(1) idem [of s'] by simp
  have wr: "db_ensure_minfree extent_size z s = Inr s' \<and> db_extents s' \<noteq> [] \<and>
      minfree extent_size \<le> span_size (write_window (last (db_extents s'))) \<and>
      db_ensure_minfree extent_size z s' = Inr s' \<and>
      rs \<noteq> [] \<and> (\<forall>r \<in> set rs. 0 < span_size (snd r)) \<and>
      minfree extent_size \<le> sum_list (map (\<lambda>r. span_size (snd r)) rs)"
    if "db_writable_ranges extent_size z s = Inr (s', rs)" for s' rs
    using db_writable_ranges_ok [OF inv that] idem [of s'] by simp
  from zero com wr show ?thesis by blast
qed

theorem db_commit_writable_ensure_minfree_witness:
  "db_run 4 (CHR ''.'') db_new [DbWrite ''abc''] =
     Some (Inr \<lparr>db_extents = [\<lparr>fb_data = ''abc.'', fb_read_pos = 0, fb_write_pos = 3\<rparr>,
                   \<lparr>fb_data = ''....'', fb_read_pos = 0, fb_write_pos = 0\<rparr>],
                 db_write_pointer = 0\<rparr>) \<and>
   db_commit 4 (CHR ''.'')
     \<lparr>db_extents = [\<lparr>fb_data = ''abc.'', fb_read_pos = 0, fb_write_pos = 3\<rparr>,
                    \<lparr>fb_data = ''....'', fb_read_pos = 0, fb_write_pos = 0\<rparr>],
      db_write_pointer = 0\<rparr> 5 =
     Inr (\<lparr>db_extents = [\<lparr>fb_data = ''abc.'', fb_read_pos = 0, fb_write_pos = 4\<rparr>,
                   \<lparr>fb_data = ''....'', fb_read_pos = 0, fb_write_pos = 4\<rparr>,
                   \<lparr>fb_data = ''....'', fb_read_pos = 0, fb_write_pos = 0\<rparr>],
           db_write_pointer = 2\<rparr>, 5) \<and>
   db_writable_ranges 4 (CHR ''.'')
     \<lparr>db_extents = [\<lparr>fb_data = ''abc.'', fb_read_pos = 0, fb_write_pos = 3\<rparr>,
                    \<lparr>fb_data = ''....'', fb_read_pos = 0, fb_write_pos = 0\<rparr>],
      db_write_pointer = 0\<rparr> =
     Inr (\<lparr>db_extents = [\<lparr>fb_data = ''abc.'', fb_read_pos = 0, fb_write_pos = 3\<rparr>,
                   \<lparr>fb_data = ''....'', fb_read_pos = 0, fb_write_pos = 0\<rparr>],
           db_write_pointer = 0\<rparr>, [(0, 3, 1), (1, 0, 4)]) \<and>
   minfree 4 \<le> span_size (write_window \<lparr>fb_data = ''....'', fb_read_pos = 0, fb_write_pos = 0\<rparr>)"
proof -
  have run: "db_run 4 (CHR ''.'') db_new [DbWrite ''abc''] =
     Some (Inr \<lparr>db_extents = [\<lparr>fb_data = ''abc.'', fb_read_pos = 0, fb_write_pos = 3\<rparr>,
                   \<lparr>fb_data = ''....'', fb_read_pos = 0, fb_write_pos = 0\<rparr>],
                 db_write_pointer = 0\<rparr>)"
    by code_simp
  have c: "db_commit 4 (CHR ''.'')
     \<lparr>db_extents = [\<lparr>fb_data = ''abc.'', fb_read_pos = 0, fb_write_pos = 3\<rparr>,
                    \<lparr>fb_data = ''....'', fb_read_pos = 0, fb_write_pos = 0\<rparr>],
      db_write_pointer = 0\<rparr> 5 =
     Inr (\<lparr>db_extents = [\<lparr>fb_data = ''abc.'', fb_read_pos = 0, fb_write_pos = 4\<rparr>,
                   \<lparr>fb_data = ''....'', fb_read_pos = 0, fb_write_pos = 4\<rparr>,
                   \<lparr>fb_data = ''....'', fb_read_pos = 0, fb_write_pos = 0\<rparr>],
           db_write_pointer = 2\<rparr>, 5)"
    by code_simp
  have w: "db_writable_ranges 4 (CHR ''.'')
     \<lparr>db_extents = [\<lparr>fb_data = ''abc.'', fb_read_pos = 0, fb_write_pos = 3\<rparr>,
                    \<lparr>fb_data = ''....'', fb_read_pos = 0, fb_write_pos = 0\<rparr>],
      db_write_pointer = 0\<rparr> =
     Inr (\<lparr>db_extents = [\<lparr>fb_data = ''abc.'', fb_read_pos = 0, fb_write_pos = 3\<rparr>,
                   \<lparr>fb_data = ''....'', fb_read_pos = 0, fb_write_pos = 0\<rparr>],
           db_write_pointer = 0\<rparr>, [(0, 3, 1), (1, 0, 4)])"
    by code_simp
  have pos: "(0::nat) < 4" by simp
  have five: "(0::nat) < 5" by simp
  from db_commit_writable_ensure_minfree [OF pos run] five c
  have "minfree 4 \<le> span_size (write_window (last (db_extents
     \<lparr>db_extents = [\<lparr>fb_data = ''abc.'', fb_read_pos = 0, fb_write_pos = 4\<rparr>,
                   \<lparr>fb_data = ''....'', fb_read_pos = 0, fb_write_pos = 4\<rparr>,
                   \<lparr>fb_data = ''....'', fb_read_pos = 0, fb_write_pos = 0\<rparr>],
           db_write_pointer = 2\<rparr>)))"
    by blast
  with run c w show ?thesis by simp
qed

text \<open>
  The write pointer can be left on a full segment: \<open>ensure_minfree\<close> advances it only
  when it appends a segment. After a write of 3 units and a write of 1 unit (segments of
  4 units) the segment at \<open>write_pointer\<close> is full and an empty one follows; the
  assertions of \<open>writable_ranges\<close> and of \<open>commit\<close> then fail, while \<open>write\<close> goes on to
  the next segment.
\<close>

lemma db_write_pointer_left_on_full_segment:
  "db_run 4 (CHR ''.'') db_new [DbWrite ''abc'', DbWrite ''d''] =
     Some (Inr \<lparr>db_extents = [\<lparr>fb_data = ''abcd'', fb_read_pos = 0, fb_write_pos = 4\<rparr>,
                   \<lparr>fb_data = ''....'', fb_read_pos = 0, fb_write_pos = 0\<rparr>],
                 db_write_pointer = 0\<rparr>) \<and>
   db_writable_ranges 4 (CHR ''.'')
     \<lparr>db_extents = [\<lparr>fb_data = ''abcd'', fb_read_pos = 0, fb_write_pos = 4\<rparr>,
                    \<lparr>fb_data = ''....'', fb_read_pos = 0, fb_write_pos = 0\<rparr>],
      db_write_pointer = 0\<rparr> = Inl AssertionFailed \<and>
   db_commit 4 (CHR ''.'')
     \<lparr>db_extents = [\<lparr>fb_data = ''abcd'', fb_read_pos = 0, fb_write_pos = 4\<rparr>,
                    \<lparr>fb_data = ''....'', fb_read_pos = 0, fb_write_pos = 0\<rparr>],
      db_write_pointer = 0\<rparr> 1 = Inl AssertionFailed \<and>
   db_write 4 (CHR ''.'')
     \<lparr>db_extents = [\<lparr>fb_data = ''abcd'', fb_read_pos = 0, fb_write_pos = 4\<rparr>,
                    \<lparr>fb_data = ''....'', fb_read_pos = 0, fb_write_pos = 0\<rparr>],
      db_write_pointer = 0\<rparr> ''e'' =
     Some (Inr (\<lparr>db_extents = [\<lparr>fb_data = ''abcd'', fb_read_pos = 0, fb_write_pos = 4\<rparr>,
                   \<lparr>fb_data = ''e...'', fb_read_pos = 0, fb_write_pos = 1\<rparr>],
                 db_write_pointer = 1\<rparr>, 1))"
  by code_simp

end
